(* ===== verification/Js_String.thy ===== *)
theory Js_String
  imports Main "HOL-Library.Sublist"
begin

text \<open>
  The string operations of JavaScript that the plugins use.  A \<open>string\<close> is the list of a
  JavaScript string's UTF-16 code units, restricted to the units U+0000 to U+00FF, so that a
  \<open>char\<close> is one code unit (all string literals of the modelled sources are in this range,
  the middle dot U+00B7 of the default messages included).

  Each regular expression of the sources becomes a function.  A replacement with a global
  regular expression and a callback is \<open>scan\<close>, which is parameterised by a matcher
  anchored at the current position; the locale \<open>placeholder\<close> states what the
  placeholder matchers of the ntfy plugin have in common.
\<close>

named_theorems js_simps \<open>evaluation rules for the JavaScript primitives\<close>

text \<open>A guard that raises: the successful result of a chain of checks.\<close>

lemma guard_eq_Inr: "(if c then Inl e else r) = Inr s \<longleftrightarrow> \<not> c \<and> r = Inr s"
  by simp

abbreviation ok_bind :: "'e + 'a \<Rightarrow> ('a \<Rightarrow> 'e + 'b) \<Rightarrow> 'e + 'b" where
  "ok_bind r f \<equiv> (case r of Inl e \<Rightarrow> Inl e | Inr a \<Rightarrow> f a)"

section \<open>Character classes\<close>

definition code_unit :: "char \<Rightarrow> nat" where
  "code_unit c = of_char c"

definition LF :: char where "LF = CHR 0x0A"
definition CR :: char where "CR = CHR 0x0D"

definition is_ws :: "char \<Rightarrow> bool" where
  "is_ws c \<longleftrightarrow> (9 \<le> code_unit c \<and> code_unit c \<le> 13) \<or> code_unit c = 32 \<or> code_unit c = 160"

definition is_digit :: "char \<Rightarrow> bool" where
  "is_digit c \<longleftrightarrow> 48 \<le> code_unit c \<and> code_unit c \<le> 57"

definition is_upper :: "char \<Rightarrow> bool" where
  "is_upper c \<longleftrightarrow> 65 \<le> code_unit c \<and> code_unit c \<le> 90"

definition is_lower :: "char \<Rightarrow> bool" where
  "is_lower c \<longleftrightarrow> 97 \<le> code_unit c \<and> code_unit c \<le> 122"

definition is_alnum :: "char \<Rightarrow> bool" where
  "is_alnum c \<longleftrightarrow> is_upper c \<or> is_lower c \<or> is_digit c"

definition is_hex :: "char \<Rightarrow> bool" where
  "is_hex c \<longleftrightarrow> is_digit c \<or> (97 \<le> code_unit c \<and> code_unit c \<le> 102)"

definition is_word :: "char \<Rightarrow> bool" where
  "is_word c \<longleftrightarrow> is_alnum c \<or> c = CHR ''_''"

lemmas char_class_defs =
  code_unit_def LF_def CR_def is_ws_def is_digit_def is_upper_def is_lower_def is_alnum_def
  is_hex_def is_word_def

declare char_class_defs [js_simps]

lemma is_ws_LF [simp]: "is_ws LF" and is_ws_CR [simp]: "is_ws CR"
  by (simp_all add: char_class_defs)

lemma LF_neq_CR [simp]: "LF \<noteq> CR" "CR \<noteq> LF"
  by (simp_all add: char_class_defs)

lemma is_digit_not_ws: "is_digit c \<Longrightarrow> \<not> is_ws c"
  by (auto simp: char_class_defs)

section \<open>trim, split, join, includes, startsWith\<close>

definition trim_start :: "string \<Rightarrow> string" where
  "trim_start s = dropWhile is_ws s"

definition trim :: "string \<Rightarrow> string" where
  "trim s = rev (dropWhile is_ws (rev (trim_start s)))"

definition trimmed :: "string \<Rightarrow> bool" where
  "trimmed s \<longleftrightarrow> s = [] \<or> (\<not> is_ws (hd s) \<and> \<not> is_ws (last s))"

lemma dropWhile_id_iff: "dropWhile P s = s \<longleftrightarrow> s = [] \<or> \<not> P (hd s)"
  by (cases s) (auto, metis dropWhile.simps(2) dropWhile_eq_Cons_conv list.sel(1))

lemma last_dropWhile: "dropWhile P s \<noteq> [] \<Longrightarrow> last (dropWhile P s) = last s"
  by (induction s) auto

lemma trimmed_trim [simp, intro]: "trimmed (trim s)"
proof (cases "trim s = []")
  case False
  let ?u = "dropWhile is_ws s"
  let ?v = "dropWhile is_ws (rev ?u)"
  have v: "?v \<noteq> []" using False by (simp add: trim_def trim_start_def)
  then have u: "?u \<noteq> []" by (cases "?u = []") simp_all
  have "\<not> is_ws (hd ?v)" using v by (rule hd_dropWhile)
  moreover have "last ?v = hd ?u"
    using v u by (simp add: last_dropWhile last_rev)
  moreover have "\<not> is_ws (hd ?u)" using u by (rule hd_dropWhile)
  ultimately show ?thesis
    using v by (simp add: trimmed_def trim_def trim_start_def hd_rev last_rev)
qed (simp add: trimmed_def)

lemma trim_id: "trimmed s \<Longrightarrow> trim s = s"
  by (cases "s = []")
     (auto simp: trimmed_def trim_def trim_start_def dropWhile_id_iff hd_rev
        dropWhile_id_iff [THEN iffD2])

lemma trim_idem [simp]: "trim (trim s) = trim s"
  by (simp add: trim_id)

lemma trim_Nil [simp]: "trim [] = []"
  by (simp add: trim_def trim_start_def)

lemma trim_no_ws: "(\<And>c. c \<in> set s \<Longrightarrow> \<not> is_ws c) \<Longrightarrow> trim s = s"
  by (rule trim_id) (auto simp: trimmed_def)

text \<open>\<open>s.split(/\r?\n/)\<close>.\<close>

fun push_char :: "char \<Rightarrow> string list \<Rightarrow> string list" where
  "push_char c [] = [[c]]"
| "push_char c (l # ls) = (c # l) # ls"

fun split_lines :: "string \<Rightarrow> string list" where
  "split_lines [] = [[]]"
| "split_lines (c # s) =
     (if c = LF then [] # split_lines s
      else if c = CR \<and> s \<noteq> [] \<and> hd s = LF then split_lines s
      else push_char c (split_lines s))"

lemma split_lines_not_Nil [simp]: "split_lines s \<noteq> []"
proof (induction s)
  case (Cons c s)
  then show ?case by (cases "split_lines s") auto
qed simp

definition plain_line :: "string \<Rightarrow> bool" where
  "plain_line l \<longleftrightarrow> LF \<notin> set l \<and> CR \<notin> set l"

lemma split_lines_plain: "plain_line l \<Longrightarrow> split_lines l = [l]"
  by (induction l) (auto simp: plain_line_def)

lemma split_lines_append: "plain_line l \<Longrightarrow> split_lines (l @ LF # s) = l # split_lines s"
  by (induction l) (auto simp: plain_line_def)

text \<open>\<open>s.split(sep)\<close> for a one-character separator.\<close>

fun split_on :: "char \<Rightarrow> string \<Rightarrow> string list" where
  "split_on sep [] = [[]]"
| "split_on sep (c # s) =
     (if c = sep then [] # split_on sep s else push_char c (split_on sep s))"

lemma split_on_not_Nil [simp]: "split_on sep s \<noteq> []"
proof (induction s)
  case (Cons c s)
  then show ?case by (cases "split_on sep s") auto
qed simp

fun join_with :: "string \<Rightarrow> string list \<Rightarrow> string" where
  "join_with sep [] = []"
| "join_with sep [s] = s"
| "join_with sep (s # t # ts) = s @ sep @ join_with sep (t # ts)"

lemma split_lines_join:
  "ls \<noteq> [] \<Longrightarrow> list_all plain_line ls \<Longrightarrow> split_lines (join_with [LF] ls) = ls"
proof (induction "[LF]" ls rule: join_with.induct)
  case (3 s t ts)
  then show ?case by (simp add: split_lines_append del: split_lines.simps)
qed (simp_all add: split_lines_plain)

definition starts_with :: "string \<Rightarrow> string \<Rightarrow> bool" where
  "starts_with s p \<longleftrightarrow> take (length p) s = p"

fun str_includes :: "string \<Rightarrow> string \<Rightarrow> bool" where
  "str_includes [] p = (p = [])"
| "str_includes (c # s) p = (starts_with (c # s) p \<or> str_includes s p)"

lemma starts_with_append [simp]: "starts_with (p @ s) p"
  by (simp add: starts_with_def)

lemma starts_with_iff_prefix: "starts_with s p \<longleftrightarrow> prefix p s"
  by (metis append_eq_conv_conj append_take_drop_id prefix_def starts_with_def)

lemma includes_iff: "str_includes s p \<longleftrightarrow> (\<exists>a b. s = a @ p @ b)"
proof (induction s)
  case (Cons c s)
  have "starts_with (c # s) p \<longleftrightarrow> (\<exists>b. c # s = p @ b)"
    by (metis starts_with_iff_prefix prefix_def)
  with Cons show ?case
    by (auto simp: Cons_eq_append_conv)
qed auto

lemma includes_middle [simp, intro]: "str_includes (a @ p @ b) p"
  by (auto simp: includes_iff)

section \<open>Decimal notation of integers\<close>

fun show_nat :: "nat \<Rightarrow> string" where
  "show_nat n =
     (if n < 10 then [char_of (48 + n)] else show_nat (n div 10) @ [char_of (48 + n mod 10)])"

declare show_nat.simps [simp del]

definition show_int :: "int \<Rightarrow> string" where
  "show_int i = (if i < 0 then ''-'' @ show_nat (nat (- i)) else show_nat (nat i))"

text \<open>The value of a string of digits.\<close>

fun digits_val :: "int \<Rightarrow> string \<Rightarrow> int" where
  "digits_val n [] = n"
| "digits_val n (c # s) = digits_val (10 * n + (of_char c - 48)) s"

lemma digits_val_append: "digits_val n (s @ t) = digits_val (digits_val n s) t"
  by (induction s arbitrary: n) auto

lemma show_nat_digits:
  "list_all is_digit (show_nat n) \<and> show_nat n \<noteq> [] \<and> digits_val 0 (show_nat n) = int n"
proof (induction n rule: show_nat.induct)
  case (1 n)
  have "10 * int (n div 10) + int (n mod 10) = int n" by presburger
  have d: "is_digit (char_of (48 + k))" "of_char (char_of (48 + k) :: char) = 48 + int k"
    if "k < 10" for k :: nat
    using that of_nat_of_char[of "char_of (48 + k)", where 'a = int, symmetric]
    by (auto simp: char_class_defs take_bit_eq_mod)
  show ?case
  proof (cases "n < 10")
    case True
    with d show ?thesis by (simp add: show_nat.simps[of n])
  next
    case False
    with 1 d[of "n mod 10"] show ?thesis
      by (simp add: show_nat.simps[of n] digits_val_append \<open>_ = int n\<close>)
  qed
qed

section \<open>Replacement with a global regular expression\<close>

text \<open>
  A matcher looks at the text from the current position on and returns the captured group
  and the length of the match.  \<open>scan\<close> is \<open>String.prototype.replace\<close> with a global
  expression and a callback: the leftmost matches, left to right, a callback that throws
  ends the replacement.
\<close>

type_synonym matcher = "string \<Rightarrow> (string \<times> nat) option"

function scan :: "matcher \<Rightarrow> (string \<Rightarrow> 'e + string) \<Rightarrow> string \<Rightarrow> 'e + string" where
  "scan m f [] = Inr []"
| "scan m f (c # s) =
     (case m (c # s) of
        None \<Rightarrow> (case scan m f s of Inl e \<Rightarrow> Inl e | Inr t \<Rightarrow> Inr (c # t))
      | Some (k, n) \<Rightarrow>
          (case f k of
             Inl e \<Rightarrow> Inl e
           | Inr v \<Rightarrow>
               (case scan m f (drop (n - 1) s) of Inl e \<Rightarrow> Inl e | Inr t \<Rightarrow> Inr (v @ t))))"
  by pat_completeness auto
termination
  by (relation "measure (\<lambda>(m, f, s). length s)") auto

locale placeholder =
  fixes m :: matcher and opener :: char
  assumes starts: "m s = Some (k, n) \<Longrightarrow> \<exists>t. s = opener # t"
begin

lemma no_match: "s = [] \<or> hd s \<noteq> opener \<Longrightarrow> m s = None"
  using starts by (cases "m s") force+

lemma scan_plain: "opener \<notin> set s \<Longrightarrow> scan m f s = Inr s"
  by (induction s) (auto simp: no_match)

lemma scan_text:
  "opener \<notin> set lit \<Longrightarrow>
   scan m f (lit @ s) = (case scan m f s of Inl e \<Rightarrow> Inl e | Inr t \<Rightarrow> Inr (lit @ t))"
  by (induction lit) (auto simp: no_match split: sum.splits)

lemma scan_hit:
  assumes "m (ph @ s) = Some (k, length ph)" "ph \<noteq> []"
  shows "scan m f (ph @ s) =
    (case f k of Inl e \<Rightarrow> Inl e
     | Inr v \<Rightarrow> (case scan m f s of Inl e \<Rightarrow> Inl e | Inr t \<Rightarrow> Inr (v @ t)))"
  using assms by (cases ph) (auto split: sum.splits)

end

end
