(* ===== verification/Js_Value.thy ===== *)
theory Js_Value
  imports Complex_Main Js_String
begin

text \<open>
  The JavaScript values the plugins inspect (parsed JSON, event properties, responses of the
  opencode client), with the operations of the language applied to them: \<open>typeof\<close>
  tests, property lookup through \<open>Object.prototype\<close>, truthiness, \<open>Object.keys\<close>,
  \<open>Number.isInteger\<close>.
\<close>

section \<open>Numbers\<close>

text \<open>A double is a rational number or one of the three special values.\<close>

datatype jsnum = Fin rat | PosInf | NegInf | NaN

fun num_is_integer :: "jsnum \<Rightarrow> bool" where
  "num_is_integer (Fin q) = (of_int \<lfloor>q\<rfloor> = q)"
| "num_is_integer _ = False"

text \<open>The integer of a number that passed \<open>Number.isInteger\<close>.\<close>

fun num_int :: "jsnum \<Rightarrow> int" where
  "num_int (Fin q) = \<lfloor>q\<rfloor>"
| "num_int _ = 0"

definition int_num :: "int \<Rightarrow> jsnum" where
  "int_num i = Fin (of_int i)"

lemma num_is_integer_int_num [simp]: "num_is_integer (int_num i)"
  by (simp add: int_num_def)

lemma num_int_int_num [simp]: "num_int (int_num i) = i"
  by (simp add: int_num_def)

lemma int_num_num_int: "num_is_integer n \<Longrightarrow> int_num (num_int n) = n"
  by (cases n) (auto simp: int_num_def)

section \<open>Values and properties\<close>

text \<open>
  \<open>JNative\<close> is a native function inherited from \<open>Object.prototype\<close>.  An object is
  the list of its own enumerable properties in the order of \<open>Object.keys\<close>.
\<close>

datatype jsval =
    JUndef
  | JNull
  | JBool bool
  | JNum jsnum
  | JStr string
  | JArr "jsval list"
  | JObj "(string \<times> jsval) list"
  | JNative string

text \<open>The properties every ordinary object inherits.\<close>

definition object_prototype :: "string list" where
  "object_prototype =
     [''constructor'', ''__defineGetter__'', ''__defineSetter__'', ''hasOwnProperty'',
      ''__lookupGetter__'', ''__lookupSetter__'', ''isPrototypeOf'',
      ''propertyIsEnumerable'', ''toString'', ''valueOf'', ''toLocaleString'']"

definition proto_prop :: "string \<Rightarrow> jsval" where
  "proto_prop k =
     (if k = ''__proto__'' then JObj []
      else if k \<in> set object_prototype then JNative k else JUndef)"

text \<open>\<open>o[k]\<close> on an object with prototype \<open>Object.prototype\<close>, and on one with
  prototype \<open>null\<close> (\<open>Object.create(null)\<close>).\<close>

definition obj_get :: "(string \<times> jsval) list \<Rightarrow> string \<Rightarrow> jsval" where
  "obj_get ps k = (case map_of ps k of Some v \<Rightarrow> v | None \<Rightarrow> proto_prop k)"

definition bare_get :: "(string \<times> jsval) list \<Rightarrow> string \<Rightarrow> jsval" where
  "bare_get ps k = (case map_of ps k of Some v \<Rightarrow> v | None \<Rightarrow> JUndef)"

fun is_record :: "jsval \<Rightarrow> bool" where
  "is_record (JObj _) = True"
| "is_record _ = False"

fun is_string :: "jsval \<Rightarrow> bool" where
  "is_string (JStr _) = True"
| "is_string _ = False"

text \<open>\<open>v?.[k]\<close>: nothing but a record has one of the properties the sources ask for.\<close>

fun opt_get :: "jsval \<Rightarrow> string \<Rightarrow> jsval" where
  "opt_get (JObj ps) k = obj_get ps k"
| "opt_get _ k = JUndef"

text \<open>\<open>v ?? w\<close>.\<close>

fun nullish :: "jsval \<Rightarrow> jsval \<Rightarrow> jsval" where
  "nullish JUndef w = w"
| "nullish JNull w = w"
| "nullish v w = v"

fun truthy :: "jsval \<Rightarrow> bool" where
  "truthy JUndef = False"
| "truthy JNull = False"
| "truthy (JBool b) = b"
| "truthy (JNum (Fin q)) = (q \<noteq> 0)"
| "truthy (JNum NaN) = False"
| "truthy (JNum _) = True"
| "truthy (JStr s) = (s \<noteq> [])"
| "truthy (JArr _) = True"
| "truthy (JObj _) = True"
| "truthy (JNative _) = True"

fun non_empty_string :: "jsval \<Rightarrow> bool" where
  "non_empty_string (JStr s) = (s \<noteq> [])"
| "non_empty_string _ = False"

text \<open>What an awaited call of the client gives: a response with its \<open>data\<close>, or an
  exception with the thrown value.\<close>

datatype reply = Returned jsval | Thrown jsval

text \<open>The property names the sources read are not inherited.\<close>

definition ordinary_name :: "string \<Rightarrow> bool" where
  "ordinary_name k \<longleftrightarrow> k \<noteq> ''__proto__'' \<and> k \<notin> set object_prototype"

lemma bare_get_simps [simp]:
  "bare_get [] k = JUndef"
  "bare_get ((k', v) # ps) k = (if k = k' then v else bare_get ps k)"
  by (auto simp: bare_get_def)

lemma obj_get_Cons [simp]:
  "obj_get ((k', v) # ps) k = (if k = k' then v else obj_get ps k)"
  by (auto simp: obj_get_def)

lemma obj_get_Nil [simp]: "obj_get [] k = proto_prop k"
  by (simp add: obj_get_def)

declare proto_prop_def [js_simps] object_prototype_def [js_simps]

end
