(* ===== verification/Pty_Lifecycle.thy ===== *)
theory Pty_Lifecycle
  imports Js_Value
begin

text \<open>
  \<open>plugins/ntfy/src/pty-lifecycle.ts\<close>: which background terminals of a session are
  still running, read off the transcript.  The tool \<open>pty_spawn\<close> prints a
  \<open><pty_spawned>\<close> record, and when a terminal with \<open>notifyOnExit\<close> exits, a
  user message with a \<open><pty_exited>\<close> record follows.  The abstract specification
  \<open>still_pending\<close> says which identifiers are unfinished, with no accumulator.
\<close>

section \<open>Records in the transcript\<close>

text \<open>The regular expression \<open>/^pty_[a-f0-9]{8}$/\<close>.\<close>

definition pty_id_pattern :: "string \<Rightarrow> bool" where
  "pty_id_pattern s \<longleftrightarrow>
     starts_with s ''pty_'' \<and> length s = 12 \<and> list_all is_hex (drop 4 s)"

type_synonym block = "string \<rightharpoonup> string"

text \<open>\<open>line.match(/^([^:]+):\s*(.*)$/)\<close>; the dot matches no line terminator.\<close>

definition field_line :: "string \<Rightarrow> (string \<times> string) option" where
  "field_line line =
     (let k = takeWhile (\<lambda>c. c \<noteq> CHR '':'') line;
          r = dropWhile (\<lambda>c. c \<noteq> CHR '':'') line
      in if k = [] \<or> r = [] then None
         else let v = trim_start (tl r)
              in if plain_line v then Some (k, v) else None)"

definition open_tag :: "string \<Rightarrow> string" where
  "open_tag tag = ''<'' @ tag @ ''>''"

definition close_tag :: "string \<Rightarrow> string" where
  "close_tag tag = ''</'' @ tag @ ''>''"

text \<open>One iteration of the loop over the lines; the state is \<open>out\<close> and
  \<open>current\<close>.\<close>

definition record_line ::
  "string \<Rightarrow> block list \<times> block option \<Rightarrow> string \<Rightarrow> block list \<times> block option" where
  "record_line tag st rawLine =
     (let (out, current) = st; line = trim rawLine
      in if line = open_tag tag then (out, Some Map.empty)
         else if line = close_tag tag
           then ((case current of None \<Rightarrow> out | Some b \<Rightarrow> out @ [b]), None)
         else (case current of
             None \<Rightarrow> (out, None)
           | Some b \<Rightarrow>
               (case field_line line of
                  None \<Rightarrow> (out, Some b)
                | Some (k, v) \<Rightarrow> (out, Some (b(k \<mapsto> v))))))"

definition parseRecordBlock :: "string \<Rightarrow> string \<Rightarrow> block list" where
  "parseRecordBlock text tag = fst (foldl (record_line tag) ([], None) (split_lines text))"

definition block_id :: "block \<Rightarrow> string option" where
  "block_id b =
     (case b ''ID'' of
        None \<Rightarrow> None
      | Some i \<Rightarrow> if i \<noteq> [] \<and> pty_id_pattern i then Some i else None)"

fun first_block_id :: "block list \<Rightarrow> string option" where
  "first_block_id [] = None"
| "first_block_id (b # bs) =
     (case block_id b of Some i \<Rightarrow> Some i | None \<Rightarrow> first_block_id bs)"

definition parsePtySpawnedID :: "string \<Rightarrow> string option" where
  "parsePtySpawnedID output = first_block_id (parseRecordBlock output ''pty_spawned'')"

definition parsePtyExitedIDs :: "string \<Rightarrow> string list" where
  "parsePtyExitedIDs text = List.map_filter block_id (parseRecordBlock text ''pty_exited'')"

section \<open>The pending set\<close>

text \<open>A JavaScript \<open>Set\<close> of strings in insertion order.\<close>

definition set_add :: "string list \<Rightarrow> string \<Rightarrow> string list" where
  "set_add p i = (if i \<in> set p then p else p @ [i])"

definition set_delete :: "string list \<Rightarrow> string \<Rightarrow> string list" where
  "set_delete p i = filter (\<lambda>j. j \<noteq> i) p"

text \<open>The identifier an assistant part spawns with \<open>notifyOnExit\<close>, if it is such a
  part.\<close>

definition spawn_part :: "jsval \<Rightarrow> string option" where
  "spawn_part part =
     (if \<not> is_record part \<or> opt_get part ''type'' \<noteq> JStr ''tool''
         \<or> opt_get part ''tool'' \<noteq> JStr ''pty_spawn'' then None
      else let state = opt_get part ''state''; input = opt_get state ''input''
           in if opt_get state ''status'' \<noteq> JStr ''completed''
                 \<or> opt_get input ''notifyOnExit'' \<noteq> JBool True then None
              else (case opt_get state ''output'' of
                  JStr output \<Rightarrow> parsePtySpawnedID output
                | _ \<Rightarrow> None))"

definition text_part :: "jsval \<Rightarrow> string option" where
  "text_part p =
     (if is_record p \<and> opt_get p ''type'' = JStr ''text''
      then (case opt_get p ''text'' of JStr t \<Rightarrow> Some t | _ \<Rightarrow> None)
      else None)"

definition message_role :: "jsval \<Rightarrow> jsval" where
  "message_role msg = opt_get (opt_get msg ''info'') ''role''"

definition message_parts :: "jsval \<Rightarrow> jsval list" where
  "message_parts msg = (case opt_get msg ''parts'' of JArr ps \<Rightarrow> ps | _ \<Rightarrow> [])"

definition user_text :: "jsval list \<Rightarrow> string" where
  "user_text parts = concat (List.map_filter text_part parts)"

text \<open>One iteration of the loop over the messages.\<close>

definition message_step :: "string list \<Rightarrow> jsval \<Rightarrow> string list" where
  "message_step pending msg =
     (if \<not> is_record msg then pending
      else if message_role msg = JStr ''assistant'' then
        foldl (\<lambda>p part. case spawn_part part of None \<Rightarrow> p | Some i \<Rightarrow> set_add p i)
          pending (message_parts msg)
      else if message_role msg = JStr ''user'' \<and> pending \<noteq> [] then
        foldl set_delete pending (parsePtyExitedIDs (user_text (message_parts msg)))
      else pending)"

definition unfinishedNotifyOnExitPtys :: "jsval list \<Rightarrow> string list" where
  "unfinishedNotifyOnExitPtys messages = foldl message_step [] messages"

section \<open>Specification\<close>

definition spawned_ids :: "jsval \<Rightarrow> string list" where
  "spawned_ids msg =
     (if is_record msg \<and> message_role msg = JStr ''assistant''
      then List.map_filter spawn_part (message_parts msg) else [])"

definition exited_ids :: "jsval \<Rightarrow> string list" where
  "exited_ids msg =
     (if is_record msg \<and> message_role msg = JStr ''user''
      then parsePtyExitedIDs (user_text (message_parts msg)) else [])"

text \<open>Some message spawned the terminal and no later message reports its exit.\<close>

definition still_pending :: "jsval list \<Rightarrow> string \<Rightarrow> bool" where
  "still_pending msgs i \<longleftrightarrow>
     (\<exists>before msg after. msgs = before @ msg # after \<and> i \<in> set (spawned_ids msg)
        \<and> i \<notin> set (concat (map exited_ids after)))"

lemma set_set_add [simp]: "set (set_add p i) = insert i (set p)"
  by (auto simp: set_add_def)

lemma set_set_delete [simp]: "set (set_delete p i) = set p - {i}"
  by (auto simp: set_delete_def)

lemma distinct_set_add: "distinct p \<Longrightarrow> distinct (set_add p i)"
  by (simp add: set_add_def)

lemma distinct_set_delete: "distinct p \<Longrightarrow> distinct (set_delete p i)"
  by (simp add: set_delete_def)

lemma set_foldl_delete: "set (foldl set_delete p is) = set p - set is"
  by (induction "is" arbitrary: p) auto

lemma distinct_foldl_delete: "distinct p \<Longrightarrow> distinct (foldl set_delete p is)"
  by (induction "is" arbitrary: p) (auto simp: distinct_set_delete)

lemma foldl_add_filter:
  "foldl (\<lambda>p x. case f x of None \<Rightarrow> p | Some i \<Rightarrow> set_add p i) p xs =
   foldl set_add p (List.map_filter f xs)"
  by (induction xs arbitrary: p) (auto simp: List.map_filter_def split: option.split)

lemma set_foldl_add: "set (foldl set_add p is) = set p \<union> set is"
  by (induction "is" arbitrary: p) auto

lemma distinct_foldl_add: "distinct p \<Longrightarrow> distinct (foldl set_add p is)"
  by (induction "is" arbitrary: p) (auto simp: distinct_set_add)

lemma set_message_step:
  "set (message_step p msg) = (set p \<union> set (spawned_ids msg)) - set (exited_ids msg)"
  by (auto simp: message_step_def spawned_ids_def exited_ids_def foldl_add_filter
      set_foldl_add set_foldl_delete)

lemma distinct_message_step: "distinct p \<Longrightarrow> distinct (message_step p msg)"
  by (simp add: message_step_def foldl_add_filter distinct_foldl_add distinct_foldl_delete)

lemma still_pending_snoc:
  "still_pending (msgs @ [m]) i \<longleftrightarrow>
   (still_pending msgs i \<and> i \<notin> set (exited_ids m)) \<or> i \<in> set (spawned_ids m)"
  unfolding still_pending_def
  by (fastforce simp: append_eq_append_conv2 append_eq_Cons_conv Cons_eq_append_conv)

end
