(* ===== verification/Pty_Props.thy ===== *)
theory Pty_Props
  imports Pty_Lifecycle
begin

text \<open>
  Correctness of the transcript parser: the accumulator loop computes the abstract
  specification, its result is a duplicate-free list of well-formed identifiers, printed
  records are read back, and prose that mentions the tags is no record.
\<close>

section \<open>Identifiers\<close>

lemma block_id_pattern: "block_id b = Some i \<Longrightarrow> pty_id_pattern i"
  by (auto simp: block_id_def split: option.splits if_splits)

lemma first_block_id_pattern: "first_block_id bs = Some i \<Longrightarrow> pty_id_pattern i"
  by (induction bs) (auto split: option.splits dest: block_id_pattern)

lemma spawn_part_pattern: "spawn_part p = Some i \<Longrightarrow> pty_id_pattern i"
  by (auto simp: spawn_part_def parsePtySpawnedID_def Let_def
      split: if_splits jsval.splits dest: first_block_id_pattern)

lemma in_map_filter: "y \<in> set (List.map_filter f xs) \<longleftrightarrow> (\<exists>x\<in>set xs. f x = Some y)"
  by (induction xs) (auto simp: List.map_filter_def split: option.splits)

lemma spawned_ids_pattern: "i \<in> set (spawned_ids m) \<Longrightarrow> pty_id_pattern i"
  by (auto simp: spawned_ids_def in_map_filter dest: spawn_part_pattern split: if_splits)

lemma set_unfinished: "i \<in> set (unfinishedNotifyOnExitPtys msgs) \<longleftrightarrow> still_pending msgs i"
proof (induction msgs rule: rev_induct)
  case Nil
  then show ?case by (simp add: unfinishedNotifyOnExitPtys_def still_pending_def)
next
  case (snoc m msgs)
  have "set (spawned_ids m) \<inter> set (exited_ids m) = {}"
    by (auto simp: spawned_ids_def exited_ids_def)
  then show ?case
    using snoc by (auto simp: unfinishedNotifyOnExitPtys_def set_message_step still_pending_snoc)
qed

lemma distinct_unfinished: "distinct (unfinishedNotifyOnExitPtys msgs)"
  by (induction msgs rule: rev_induct)
     (simp_all add: unfinishedNotifyOnExitPtys_def distinct_message_step)

section \<open>Printed records are read back\<close>

definition render_field :: "string \<times> string \<Rightarrow> string" where
  "render_field f = fst f @ '': '' @ snd f"

definition render_record :: "string \<Rightarrow> (string \<times> string) list \<Rightarrow> string list" where
  "render_record tag fs = open_tag tag # map render_field fs @ [close_tag tag]"

definition field_ok :: "string \<times> string \<Rightarrow> bool" where
  "field_ok f \<longleftrightarrow>
     (let (k, v) = f in
      k \<noteq> [] \<and> \<not> is_ws (hd k) \<and> CHR '':'' \<notin> set k \<and> plain_line k
      \<and> v \<noteq> [] \<and> trimmed v \<and> plain_line v)"

definition tag_ok :: "string \<Rightarrow> bool" where
  "tag_ok tag \<longleftrightarrow> CHR '':'' \<notin> set tag \<and> CHR ''/'' \<notin> set tag \<and> list_all (\<lambda>c. \<not> is_ws c) tag"

lemma trim_open_tag: "tag_ok tag \<Longrightarrow> trim (open_tag tag) = open_tag tag"
  by (rule trim_id) (auto simp: trimmed_def open_tag_def is_ws_def code_unit_def)

lemma trim_close_tag: "tag_ok tag \<Longrightarrow> trim (close_tag tag) = close_tag tag"
  by (rule trim_id) (auto simp: trimmed_def close_tag_def is_ws_def code_unit_def)

lemma open_neq_close: "tag_ok tag \<Longrightarrow> close_tag tag \<noteq> open_tag tag"
proof
  assume ok: "tag_ok tag" and eq: "close_tag tag = open_tag tag"
  have "CHR ''/'' \<in> set (close_tag tag)" by (simp add: close_tag_def)
  with eq ok show False by (auto simp: open_tag_def tag_ok_def)
qed

lemma trim_render_field: "field_ok f \<Longrightarrow> trim (render_field f) = render_field f"
  by (rule trim_id) (auto simp: trimmed_def render_field_def field_ok_def split: prod.splits)

lemma render_field_not_tag:
  assumes "tag_ok tag"
  shows "render_field f \<noteq> open_tag tag" "render_field f \<noteq> close_tag tag"
proof -
  have "CHR '':'' \<in> set (render_field f)" by (simp add: render_field_def)
  moreover have "CHR '':'' \<notin> set (open_tag tag)" "CHR '':'' \<notin> set (close_tag tag)"
    using assms by (auto simp: open_tag_def close_tag_def tag_ok_def)
  ultimately show "render_field f \<noteq> open_tag tag" "render_field f \<noteq> close_tag tag" by auto
qed

lemma takeWhile_colon:
  "CHR '':'' \<notin> set k \<Longrightarrow> takeWhile (\<lambda>c. c \<noteq> CHR '':'') (k @ CHR '':'' # r) = k"
  by (induction k) auto

lemma dropWhile_colon:
  "CHR '':'' \<notin> set k \<Longrightarrow> dropWhile (\<lambda>c. c \<noteq> CHR '':'') (k @ CHR '':'' # r) = CHR '':'' # r"
  by (induction k) auto

lemma field_line_render: "field_ok f \<Longrightarrow> field_line (render_field f) = Some f"
  by (cases f)
     (auto simp: field_line_def render_field_def field_ok_def takeWhile_colon dropWhile_colon
       trim_start_def trimmed_def is_ws_def code_unit_def neq_Nil_conv)

lemma record_line_field:
  "tag_ok tag \<Longrightarrow> field_ok f \<Longrightarrow>
   record_line tag (out, Some b) (render_field f) = (out, Some (b(fst f \<mapsto> snd f)))"
  by (cases f)
     (simp add: record_line_def trim_render_field render_field_not_tag field_line_render)

lemma record_lines_fields:
  "tag_ok tag \<Longrightarrow> list_all field_ok fs \<Longrightarrow>
   foldl (record_line tag) (out, Some b) (map render_field fs) = (out, Some (b ++ map_of (rev fs)))"
  by (induction fs arbitrary: b) (auto simp: record_line_field)

lemma record_lines_record:
  assumes "tag_ok tag" "list_all field_ok fs"
  shows "foldl (record_line tag) (out, None) (render_record tag fs) = (out @ [map_of (rev fs)], None)"
  using assms
  by (simp add: render_record_def record_lines_fields)
     (simp add: record_line_def trim_open_tag trim_close_tag open_neq_close record_lines_fields)

lemma record_lines_records:
  "tag_ok tag \<Longrightarrow> list_all (list_all field_ok) recs \<Longrightarrow>
   foldl (record_line tag) (out, None) (concat (map (render_record tag) recs)) =
     (out @ map (\<lambda>fs. map_of (rev fs)) recs, None)"
  by (induction recs arbitrary: out) (auto simp: record_lines_record)

lemma plain_render_record:
  assumes "tag_ok tag" "list_all field_ok fs"
  shows "list_all plain_line (render_record tag fs)"
proof -
  have "plain_line (open_tag tag)" "plain_line (close_tag tag)"
    using assms(1)
    by (auto simp: plain_line_def open_tag_def close_tag_def tag_ok_def list_all_iff
        simp flip: One_nat_def) (auto simp: char_class_defs)
  moreover have "plain_line (render_field f)" if "field_ok f" for f
    using that by (auto simp: plain_line_def render_field_def field_ok_def char_class_defs)
  ultimately show ?thesis
    using assms(2) by (auto simp: render_record_def list_all_iff)
qed

section \<open>Properties\<close>

text \<open>C17: the terminals reported as unfinished are exactly those that some message spawned
  with \<open>notifyOnExit\<close> and whose exit no later user message reports; an exit reported
  before the spawn, or by an assistant message, does not count.\<close>

theorem unfinished_iff_still_pending:
  "i \<in> set (unfinishedNotifyOnExitPtys messages) \<longleftrightarrow> still_pending messages i"
  by (rule set_unfinished)

text \<open>The pending set has no duplicates and holds only identifiers of the shape
  \<open>pty_\<close> and eight lower-case hexadecimal digits.\<close>

theorem unfinished_well_formed:
  "distinct (unfinishedNotifyOnExitPtys messages)
   \<and> list_all pty_id_pattern (unfinishedNotifyOnExitPtys messages)"
  by (auto simp: list_all_iff set_unfinished still_pending_def distinct_unfinished
      dest: spawned_ids_pattern)

text \<open>C32: records printed in the lifecycle format are read back field by field, a repeated
  key keeping its last value.\<close>

theorem parseRecordBlock_render:
  assumes "tag_ok tag" "list_all (list_all field_ok) recs"
  shows "parseRecordBlock (join_with [LF] (concat (map (render_record tag) recs))) tag =
    map (\<lambda>fs. map_of (rev fs)) recs"
proof (cases "recs = []")
  case True
  then show ?thesis
    by (simp add: parseRecordBlock_def record_line_def open_tag_def close_tag_def)
next
  case False
  have "list_all plain_line (concat (map (render_record tag) recs))"
    using assms by (auto simp: list_all_iff dest: plain_render_record[unfolded list_all_iff, rotated])
  moreover have "concat (map (render_record tag) recs) \<noteq> []"
    using False by (auto simp: render_record_def neq_Nil_conv)
  ultimately show ?thesis
    using assms by (simp add: parseRecordBlock_def split_lines_join record_lines_records)
qed

theorem parseRecordBlock_render_witness:
  "parseRecordBlock
     (join_with [LF] (render_record ''pty_exited'' [(''ID'', ''pty_1234abcd''), (''Exit Code'', ''0'')]))
     ''pty_exited'' = [map_of [(''Exit Code'', ''0''), (''ID'', ''pty_1234abcd'')]]"
  using parseRecordBlock_render
    [of "''pty_exited''" "[[(''ID'', ''pty_1234abcd''), (''Exit Code'', ''0'')]]"]
  by (simp add: tag_ok_def field_ok_def trimmed_def plain_line_def char_class_defs)

text \<open>A text none of whose lines is the opening tag holds no record, so prose that
  mentions the tags inside a line never clears a terminal.\<close>

theorem prose_is_no_record:
  assumes "list_all (\<lambda>l. trim l \<noteq> open_tag tag) (split_lines text)"
  shows "parseRecordBlock text tag = []"
proof -
  have "foldl (record_line tag) ([], None) ls = ([], None)"
    if "list_all (\<lambda>l. trim l \<noteq> open_tag tag) ls" for ls
    using that by (induction ls) (auto simp: record_line_def Let_def)
  with assms show ?thesis by (simp add: parseRecordBlock_def)
qed

end
