(* ===== verification/Pty_Contract.thy ===== *)
theory Pty_Contract
  imports Pty_Props
begin

text \<open>
  \<open>nix/replay/pty-lifecycle-contract/check.ts\<close>: the contract that the transcript parser of
  the notification plugin shares with the recovery service.  A contract case becomes a
  transcript; the pending terminals of it are characterised, and the parser gives the
  expected ones on the cases of \<open>cases.json\<close>.  The comparison with the recovery service,
  a program run on a database, is not modelled.
\<close>

section \<open>Contract cases\<close>

datatype exit_role = User | Assistant
datatype exit_order = Before | After

record exit_record =
  x_role :: exit_role
  x_order :: exit_order
  x_text :: string

record contract_case =
  case_name :: string
  notifyOnExit :: "bool option"
  spawnOutput :: string
  exits :: "exit_record list"
  pending :: "string list"

fun role_name :: "exit_role \<Rightarrow> string" where
  "role_name User = ''user''"
| "role_name Assistant = ''assistant''"

definition textMessage :: "exit_record \<Rightarrow> jsval" where
  "textMessage x = JObj [(''info'', JObj [(''role'', JStr (role_name (x_role x)))]),
     (''parts'', JArr [JObj [(''type'', JStr ''text''), (''text'', JStr (x_text x))]])]"

definition notify_of :: "contract_case \<Rightarrow> bool" where
  "notify_of tc = (case notifyOnExit tc of Some b \<Rightarrow> b | None \<Rightarrow> True)"

definition spawnMessage :: "contract_case \<Rightarrow> jsval" where
  "spawnMessage tc = JObj [(''info'', JObj [(''role'', JStr ''assistant'')]),
     (''parts'', JArr [JObj [(''type'', JStr ''tool''), (''tool'', JStr ''pty_spawn''),
        (''state'', JObj [(''status'', JStr ''completed''),
           (''input'', JObj [(''notifyOnExit'', JBool (notify_of tc))]),
           (''output'', JStr (spawnOutput tc))])]])]"

definition messagesFor :: "contract_case \<Rightarrow> jsval list" where
  "messagesFor tc =
     map textMessage (filter (\<lambda>x. x_order x = Before) (exits tc)) @ [spawnMessage tc]
     @ map textMessage (filter (\<lambda>x. x_order x = After) (exits tc))"

text \<open>\<open>name.replace(/[^A-Za-z0-9_]/g, "_")\<close> and the quoting of SQL literals.\<close>

definition safeName :: "string \<Rightarrow> string" where
  "safeName s = map (\<lambda>c. if is_word c then c else CHR ''_'') s"

definition sqlString :: "string \<Rightarrow> string" where
  "sqlString v = [CHR 0x27] @ concat (map (\<lambda>c. if c = CHR 0x27 then [c, c] else [c]) v) @ [CHR 0x27]"

section \<open>The pending terminals of a case\<close>

lemma spawned_ids_text [simp]: "spawned_ids (textMessage x) = []"
  by (auto simp: spawned_ids_def textMessage_def message_role_def message_parts_def spawn_part_def
      List.map_filter_def)

lemma exited_ids_text [simp]:
  "exited_ids (textMessage x) = (if x_role x = User then parsePtyExitedIDs (x_text x) else [])"
  by (cases "x_role x")
     (auto simp: exited_ids_def textMessage_def message_role_def message_parts_def user_text_def
       text_part_def List.map_filter_def)

lemma spawned_ids_spawn:
  "i \<in> set (spawned_ids (spawnMessage tc)) \<longleftrightarrow>
     notify_of tc \<and> parsePtySpawnedID (spawnOutput tc) = Some i"
proof -
  have "spawned_ids (spawnMessage tc) = List.map_filter
      (\<lambda>_. if notify_of tc then parsePtySpawnedID (spawnOutput tc) else None) [()]"
    by (simp add: spawned_ids_def spawnMessage_def message_role_def message_parts_def spawn_part_def
        List.map_filter_def)
  then show ?thesis unfolding \<open>spawned_ids _ = _\<close> in_map_filter by simp
qed

lemma exited_ids_spawn [simp]: "exited_ids (spawnMessage tc) = []"
  by (simp add: exited_ids_def spawnMessage_def message_role_def)

definition later_exits :: "contract_case \<Rightarrow> string list" where
  "later_exits tc = concat (map (\<lambda>x. parsePtyExitedIDs (x_text x))
     (filter (\<lambda>x. x_order x = After \<and> x_role x = User) (exits tc)))"

lemma foldl_texts:
  "set (foldl message_step p (map textMessage xs)) =
   set p - set (concat (map (\<lambda>x. parsePtyExitedIDs (x_text x)) (filter (\<lambda>x. x_role x = User) xs)))"
  by (induction xs arbitrary: p) (auto simp: set_message_step)

text \<open>The transcript of a contract case.  A case leaves a terminal pending exactly when
  its spawn asks for a notification and names a terminal, and no exit of that terminal in a
  later user message is on record; the exits before the spawn and those of the assistant
  make no difference.\<close>

theorem contract_case_pending:
  "i \<in> set (unfinishedNotifyOnExitPtys (messagesFor tc)) \<longleftrightarrow>
     notify_of tc \<and> parsePtySpawnedID (spawnOutput tc) = Some i \<and> i \<notin> set (later_exits tc)"
proof -
  let ?texts = "\<lambda>ord. map textMessage (filter (\<lambda>x. x_order x = ord) (exits tc))"
  define p where "p = foldl message_step [] (?texts Before)"
  have p: "set p = {}" unfolding p_def foldl_texts by simp
  have later: "set (concat (map (\<lambda>x. parsePtyExitedIDs (x_text x))
      (filter (\<lambda>x. x_role x = User) (filter (\<lambda>x. x_order x = After) (exits tc))))) = set (later_exits tc)"
    by (simp add: later_exits_def filter_filter conj_commute)
  have "unfinishedNotifyOnExitPtys (messagesFor tc)
      = foldl message_step (message_step p (spawnMessage tc)) (?texts After)"
    by (simp add: unfinishedNotifyOnExitPtys_def messagesFor_def p_def)
  then have "set (unfinishedNotifyOnExitPtys (messagesFor tc))
      = set (message_step p (spawnMessage tc)) - set (later_exits tc)"
    unfolding later[symmetric] foldl_texts[symmetric] by (rule arg_cong)
  also have "set (message_step p (spawnMessage tc)) = set (spawned_ids (spawnMessage tc))"
    by (simp only: set_message_step p exited_ids_spawn Un_empty_left Diff_empty list.set(1))
  finally have "set (unfinishedNotifyOnExitPtys (messagesFor tc))
      = set (spawned_ids (spawnMessage tc)) - set (later_exits tc)" .
  then show ?thesis by (simp add: spawned_ids_spawn)
qed

section \<open>The cases of the repository\<close>

definition spawned_text :: "string \<Rightarrow> string \<Rightarrow> string" where
  "spawned_text i flag = join_with [LF]
     [''<pty_spawned>'', ''ID: '' @ i, ''NotifyOnExit: '' @ flag, ''</pty_spawned>'', []]"

definition exited_text :: "string \<Rightarrow> string" where
  "exited_text i = join_with [LF] [''<pty_exited>'', ''ID: '' @ i, ''Exit Code: 0'', ''</pty_exited>'']"

definition one_case :: "string \<Rightarrow> bool option \<Rightarrow> string \<Rightarrow> exit_record list \<Rightarrow> string list \<Rightarrow> contract_case" where
  "one_case n b out xs ids =
     \<lparr>case_name = n, notifyOnExit = b, spawnOutput = out, exits = xs, pending = ids\<rparr>"

definition contract_cases :: "contract_case list" where
  "contract_cases =
     (let i = ''pty_1234abcd''; out = spawned_text i ''true'';
          exit = (\<lambda>r ord t. \<lparr>x_role = r, x_order = ord, x_text = t\<rparr>)
      in [one_case ''valid-spawn-remains-pending'' None out [] [i],
          one_case ''matching-user-exit-clears'' None out [exit User After (exited_text i)] [],
          one_case ''inline-user-prose-does-not-clear'' None out [exit User After
            (''The operator mentioned <pty_exited> ID: '' @ i
             @ '' </pty_exited> inline; this is prose, not a lifecycle block.'')] [i],
          one_case ''wrong-user-exit-does-not-clear'' None out
            [exit User After (exited_text ''pty_deadbeef'')] [i],
          one_case ''earlier-user-exit-does-not-clear'' None out [exit User Before (exited_text i)] [i],
          one_case ''assistant-exit-block-does-not-clear'' None out
            [exit Assistant After (exited_text i)] [i],
          one_case ''invalid-spawn-id-is-ignored'' None (spawned_text ''pty_nothexzz'' ''true'') [] [],
          one_case ''notify-false-is-ignored'' (Some False) (spawned_text i ''false'') [] []])"

lemma contract_cases_hold:
  "list_all (\<lambda>tc. unfinishedNotifyOnExitPtys (messagesFor tc) = pending tc) contract_cases"
  by code_simp

end
