(* ===== verification/Js_Double.thy ===== *)
theory Js_Double
  imports Js_Value
begin

text \<open>
  The arithmetic of IEEE doubles on the non-negative numbers the plugins compute with and
  parse: rounding to nearest, with the facts that it is exact on small integers.
\<close>

section \<open>Rounding\<close>

text \<open>
  Rounding to the nearest double, ties to even, for the non-negative numbers of durations:
  \<open>2 ^ e \<le> x < 2 ^ (e + 1)\<close> is found by search upwards or downwards, and \<open>x\<close> is
  rounded to a multiple of \<open>2 ^ (e - 52)\<close>, or of \<open>2 ^ -1074\<close> below the normal range.
\<close>

definition pow2 :: "int \<Rightarrow> rat" where
  "pow2 e = (if 0 \<le> e then 2 ^ nat e else 1 / 2 ^ nat (- e))"

text \<open>The exponent of the nonzero rational \<open>a / b\<close>: the lengths of numerator and
  denominator fix it up to one.\<close>

function bit_length :: "int \<Rightarrow> int" where
  "bit_length n = (if n \<le> 0 then 0 else 1 + bit_length (n div 2))"
  by pat_completeness auto
termination
  by (relation "measure nat") auto

declare bit_length.simps [simp del]

definition exponent :: "rat \<Rightarrow> int" where
  "exponent x =
     (let (a, b) = quotient_of x; e = bit_length a - bit_length b
      in if pow2 e \<le> x then e else e - 1)"

definition round_half_even :: "rat \<Rightarrow> int" where
  "round_half_even x =
     (let f = \<lfloor>x\<rfloor>; d = x - of_int f
      in if d < 1 / 2 then f else if 1 / 2 < d then f + 1
         else if even f then f else f + 1)"

definition round_double :: "rat \<Rightarrow> jsnum" where
  "round_double x =
     (if x \<le> 0 then Fin 0
      else let ulp = pow2 (max (exponent x - 52) (- 1074));
               r = of_int (round_half_even (x / ulp)) * ulp
           in if pow2 1024 \<le> r then PosInf else Fin r)"

fun num_add :: "jsnum \<Rightarrow> jsnum \<Rightarrow> jsnum" where
  "num_add (Fin a) (Fin b) = round_double (a + b)"
| "num_add _ _ = PosInf"

fun num_mult :: "jsnum \<Rightarrow> rat \<Rightarrow> jsnum" where
  "num_mult (Fin a) b = round_double (a * b)"
| "num_mult n b = n"

text \<open>\<open>Math.round\<close>: halves upwards.\<close>

fun num_round :: "jsnum \<Rightarrow> jsnum" where
  "num_round (Fin a) = Fin (of_int \<lfloor>a + 1 / 2\<rfloor>)"
| "num_round n = n"

section \<open>Powers of two\<close>

lemma pow2_powi: "pow2 e = 2 powi e"
  by (simp add: pow2_def power_int_def inverse_eq_divide power_one_over)

lemma pow2_pos [simp]: "0 < pow2 e"
  by (simp add: pow2_def)

lemma pow2_add: "pow2 (a + b) = pow2 a * pow2 b"
  by (simp add: pow2_powi power_int_add)

lemma pow2_diff: "pow2 (a - b) = pow2 a / pow2 b"
  by (simp add: pow2_powi power_int_diff)

lemma pow2_mono: "a < b \<Longrightarrow> pow2 a < pow2 b"
  by (simp add: pow2_powi power_int_strict_increasing)

lemma pow2_less_iff [simp]: "pow2 a < pow2 b \<longleftrightarrow> a < b"
  using pow2_mono[of a b] pow2_mono[of b a] by (cases a b rule: linorder_cases) auto

lemma pow2_le_iff [simp]: "pow2 a \<le> pow2 b \<longleftrightarrow> a \<le> b"
  using pow2_less_iff[of b a] by (metis not_le)

lemma pow2_nat: "pow2 (int k) = of_int (2 ^ k)"
  by (simp add: pow2_def)

lemma bit_length_bounds:
  "0 < n \<Longrightarrow> 1 \<le> bit_length n \<and> pow2 (bit_length n - 1) \<le> of_int n \<and> of_int n < pow2 (bit_length n)"
proof (induction n rule: bit_length.induct)
  case (1 n)
  show ?case
  proof (cases "n = 1")
    case True
    then show ?thesis by (simp add: bit_length.simps[of 1] bit_length.simps[of 0] pow2_def)
  next
    case False
    with 1 have "0 < n div 2" by simp
    with 1 have ih: "1 \<le> bit_length (n div 2)" "pow2 (bit_length (n div 2) - 1) \<le> of_int (n div 2)"
      "of_int (n div 2) < pow2 (bit_length (n div 2))"
      by auto
    define l where "l = nat (bit_length (n div 2) - 1)"
    have l: "bit_length (n div 2) = int l + 1" using ih(1) by (simp add: l_def)
    have "2 ^ l \<le> n div 2" "n div 2 < 2 ^ Suc l"
      using ih(2,3) l pow2_nat[of l] pow2_nat[of "Suc l"]
      by (simp_all only: of_int_le_iff of_int_less_iff add.commute of_nat_Suc diff_add_cancel add_diff_cancel_left')
    then have "2 ^ Suc l \<le> n" "n < 2 ^ Suc (Suc l)" by simp_all
    then have "pow2 (int (Suc l)) \<le> of_int n" "of_int n < pow2 (int (Suc (Suc l)))"
      unfolding pow2_nat by (simp_all only: of_int_le_iff of_int_less_iff)
    moreover have "bit_length n = int (Suc (Suc l))"
      using 1(2) l by (simp add: bit_length.simps[of n])
    ultimately show ?thesis by simp
  qed
qed

lemma exponent_bounds:
  assumes "0 < x"
  shows "pow2 (exponent x) \<le> x \<and> x < pow2 (exponent x + 1)"
proof -
  obtain a b where q: "quotient_of x = (a, b)" by force
  then have b: "0 < b" and x: "x = of_int a / of_int b"
    by (auto dest: quotient_of_denom_pos quotient_of_div)
  with assms have a: "0 < a" by (simp add: zero_less_divide_iff)
  let ?e = "bit_length a - bit_length b"
  note ba = bit_length_bounds[OF a] and bb = bit_length_bounds[OF b]
  have "x < pow2 (bit_length a) / pow2 (bit_length b - 1)"
    unfolding x using ba bb a b by (intro frac_less) simp_all
  then have up: "x < pow2 (?e + 1)" by (simp add: pow2_diff[symmetric] algebra_simps)
  have "pow2 (bit_length a - 1) / pow2 (bit_length b) \<le> x"
    unfolding x using ba bb a b by (intro frac_le) simp_all
  then have low: "pow2 (?e - 1) \<le> x" by (simp add: pow2_diff[symmetric] algebra_simps)
  show ?thesis using up low by (auto simp: exponent_def q Let_def)
qed

section \<open>Rounding to an integer\<close>

lemma round_half_even_int [simp]: "round_half_even (of_int i) = i"
  by (simp add: round_half_even_def)

lemma round_half_even_le: "x \<le> of_int j \<Longrightarrow> round_half_even x \<le> j"
proof -
  assume le: "x \<le> of_int j"
  show ?thesis
  proof (cases "x = of_int j")
    case False
    with le have "x < of_int j" by simp
    then have "\<lfloor>x\<rfloor> < j" by (simp add: floor_less_iff)
    then show ?thesis by (simp add: round_half_even_def Let_def)
  qed simp
qed

lemma round_half_even_nonneg: "0 \<le> x \<Longrightarrow> 0 \<le> round_half_even x"
  by (simp add: round_half_even_def Let_def)

section \<open>Rounded numbers are doubles\<close>

text \<open>The unit in the last place.\<close>

definition ulp :: "rat \<Rightarrow> rat" where
  "ulp x = pow2 (max (exponent x - 52) (- 1074))"

lemma ulp_pos [simp]: "0 < ulp x"
  by (simp add: ulp_def)

lemma round_double_ulp:
  "0 < x \<Longrightarrow> round_double x =
     (let r = of_int (round_half_even (x / ulp x)) * ulp x in if pow2 1024 \<le> r then PosInf else Fin r)"
  by (simp add: round_double_def ulp_def Let_def)

text \<open>A number that is a multiple of its unit is a double.\<close>

lemma round_double_exact:
  assumes "0 \<le> r" "r < pow2 1024" "0 < r \<Longrightarrow> \<exists>k. r = of_int k * ulp r"
  shows "round_double r = Fin r"
proof (cases "r = 0")
  case False
  with assms obtain k where k: "r = of_int k * ulp r" and pos: "0 < r" by auto
  have "r / ulp r = of_int k * ulp r / ulp r" using k by (rule arg_cong)
  also have "\<dots> = of_int k" using ulp_pos[of r] by (metis less_irrefl nonzero_mult_div_cancel_right)
  finally have "r / ulp r = of_int k" .
  then show ?thesis using k pos assms(2) by (simp add: round_double_ulp Let_def)
qed (simp add: round_double_def)

text \<open>The doubles are the multiples \<open>k * 2 ^ m\<close> with \<open>k\<close> of at most 53 bits, as far as the
  exponent goes.\<close>

lemma pow2_multiple: "n \<le> m \<Longrightarrow> \<exists>k. pow2 m = of_int k * pow2 n"
  by (metis zero_le_imp_eq_int diff_ge_0_iff_ge diff_add_cancel pow2_add pow2_nat)

lemma round_double_grid:
  assumes r: "r = of_int k * pow2 m" and k: "0 \<le> k" "k \<le> 2 ^ 53" and m: "- 1074 \<le> m"
    and big: "r < pow2 1024"
  shows "round_double r = Fin r"
proof (rule round_double_exact[OF _ big])
  show "0 \<le> r" unfolding r using k(1) less_imp_le[OF pow2_pos] by (intro mult_nonneg_nonneg) simp_all
  assume pos: "0 < r"
  have "r \<le> of_int (2 ^ 53) * pow2 m"
    unfolding r by (intro mult_right_mono) (use k in \<open>simp_all only: of_int_le_iff less_imp_le[OF pow2_pos]\<close>)
  also have "\<dots> = pow2 (m + 53)" using pow2_nat[of 53] by (simp add: pow2_add mult.commute)
  finally have top: "r \<le> pow2 (m + 53)" .
  show "\<exists>j. r = of_int j * ulp r"
  proof (cases "r = pow2 (m + 53)")
    case True
    then have "exponent r \<le> m + 53" using exponent_bounds[OF pos] by simp
    with m have "\<exists>j. pow2 (m + 53) = of_int j * ulp r" unfolding ulp_def by (intro pow2_multiple) simp
    with True show ?thesis by simp
  next
    case False
    then have "pow2 (exponent r) < pow2 (m + 53)" using exponent_bounds[OF pos] top by linarith
    with m have "max (exponent r - 52) (- 1074) \<le> m" by simp
    from pow2_multiple[OF this] obtain j where "pow2 m = of_int j * ulp r" by (auto simp: ulp_def)
    then have "r = of_int (k * j) * ulp r" by (simp add: r mult.assoc)
    then show ?thesis by blast
  qed
qed

lemma pow2_53: "pow2 53 = of_int (2 ^ 53)"
  using pow2_nat[of 53] by simp

lemma round_double_int:
  assumes "0 \<le> i" "i \<le> 2 ^ 53"
  shows "round_double (of_int i) = Fin (of_int i)"
proof (rule round_double_grid[where m = 0])
  have "of_int i \<le> pow2 53" unfolding pow2_53 using assms(2) by (simp only: of_int_le_iff)
  also have "\<dots> < pow2 1024" by simp
  finally show "of_int i < pow2 1024" .
qed (use assms in \<open>simp_all add: pow2_def\<close>)

lemma round_double_literals [simp]:
  "round_double 0 = Fin 0" "round_double 1 = Fin 1"
  "(numeral k :: int) \<le> 2 ^ 53 \<Longrightarrow> round_double (numeral k) = Fin (numeral k)"
  using round_double_int[of 0] round_double_int[of 1] round_double_int[of "numeral k"] by simp_all

lemma ulp_bounds:
  assumes "0 < x"
  shows "x < pow2 53 * ulp x"
proof -
  have "x < pow2 (exponent x + 1)" using exponent_bounds[OF assms] by blast
  also have "\<dots> \<le> pow2 (53 + max (exponent x - 52) (- 1074))" by simp
  finally show ?thesis by (simp only: pow2_add ulp_def)
qed

text \<open>Rounding is idempotent: the numbers that come out of it are doubles.\<close>

lemma round_double_idem:
  assumes "round_double x = Fin r"
  shows "round_double r = Fin r"
proof (cases "x \<le> 0")
  case False
  define k where "k = round_half_even (x / ulp x)"
  have r: "r = of_int k * ulp x" and big: "r < pow2 1024"
    using assms False by (auto simp: round_double_ulp Let_def k_def split: if_splits)
  have q: "0 \<le> x / ulp x" "x / ulp x < pow2 53"
    using False ulp_bounds[of x] ulp_pos[of x] by (simp_all add: less_imp_le pos_divide_less_eq)
  show ?thesis
  proof (rule round_double_grid)
    show "r = of_int k * pow2 (max (exponent x - 52) (- 1074))" using r by (simp add: ulp_def)
    show "0 \<le> k" unfolding k_def using q(1) by (rule round_half_even_nonneg)
    show "k \<le> 2 ^ 53" unfolding k_def
      by (rule round_half_even_le) (use q(2) in \<open>simp only: pow2_53 less_imp_le\<close>)
  qed (simp_all add: big)
qed (use assms in \<open>simp add: round_double_def\<close>)

lemma num_round_int [simp]: "num_round (Fin (of_int i)) = Fin (of_int i)"
proof -
  have "\<lfloor>of_int i + 1 / 2 :: rat\<rfloor> = i" by (intro floor_unique) simp_all
  then show ?thesis by simp
qed

text \<open>The numbers that arise from rounding a sum or a product are not negative and not NaN.\<close>

definition nonneg_num :: "jsnum \<Rightarrow> bool" where
  "nonneg_num n \<longleftrightarrow> n = PosInf \<or> (\<exists>q \<ge> 0. n = Fin q)"

lemma nonneg_round: "nonneg_num (round_double x)"
proof (cases "x \<le> 0")
  case False
  then have "0 \<le> x / ulp x" using ulp_pos[of x] by (simp add: less_imp_le)
  then have "0 \<le> of_int (round_half_even (x / ulp x)) * ulp x"
    using less_imp_le[OF ulp_pos] by (intro mult_nonneg_nonneg) (simp_all add: round_half_even_nonneg)
  with False show ?thesis by (simp add: round_double_ulp nonneg_num_def Let_def)
qed (simp add: round_double_def nonneg_num_def)

lemma nonneg_add: "nonneg_num a \<Longrightarrow> nonneg_num b \<Longrightarrow> nonneg_num (num_add a b)"
  using nonneg_round by (cases a; cases b) (auto simp: nonneg_num_def)

lemma nonneg_mult: "nonneg_num a \<Longrightarrow> nonneg_num (num_mult a q)"
  using nonneg_round by (cases a) (auto simp: nonneg_num_def)

end
