(* ===== verification/Js_Number.thy ===== *)
theory Js_Number
  imports Js_Double
begin

text \<open>
  Numbers and their decimal texts: \<open>Number::toString\<close>, which finds the shortest decimal
  that rounds to a double, and the numbers of the JSON grammar, with the round trip for
  every double.
\<close>

section \<open>Powers of ten\<close>

definition pow10 :: "int \<Rightarrow> rat" where
  "pow10 e = (if 0 \<le> e then 10 ^ nat e else 1 / 10 ^ nat (- e))"

lemma pow10_powi: "pow10 e = 10 powi e"
  by (simp add: pow10_def power_int_def inverse_eq_divide power_one_over)

lemma pow10_pos [simp]: "0 < pow10 e"
  by (simp add: pow10_def)

lemma pow10_add: "pow10 (a + b) = pow10 a * pow10 b"
  by (simp add: pow10_powi power_int_add)

lemma pow10_diff: "pow10 (a - b) = pow10 a / pow10 b"
  by (simp add: pow10_powi power_int_diff)

lemma pow10_nat: "pow10 (int k) = of_int (10 ^ k)"
  by (simp add: pow10_def)

lemma pow10_less_iff [simp]: "pow10 a < pow10 b \<longleftrightarrow> a < b"
  by (cases a b rule: linorder_cases)
    (auto simp: pow10_powi dest: power_int_strict_increasing[where a = "10 :: rat"])

lemma pow10_le_iff [simp]: "pow10 a \<le> pow10 b \<longleftrightarrow> a \<le> b"
  using pow10_less_iff[of b a] by (metis not_le)

section \<open>The shortest decimal\<close>

text \<open>The place of the decimal point: \<open>10 ^ (n - 1) \<le> x < 10 ^ n\<close> for positive \<open>x\<close>.\<close>

definition digit_count :: "int \<Rightarrow> int" where
  "digit_count i = int (length (show_nat (nat i)))"

definition magnitude :: "rat \<Rightarrow> int" where
  "magnitude x =
     (let (a, b) = quotient_of x; e = digit_count a - digit_count b
      in if pow10 e \<le> x then e + 1 else e)"

text \<open>The best decimal with \<open>k\<close> digits that rounds to the double \<open>x\<close>, if there is one: the
  one below or the one above, the closer if both do, the even one on a tie.\<close>

definition decimal_at :: "rat \<Rightarrow> int \<Rightarrow> nat \<Rightarrow> int option" where
  "decimal_at x n k =
     (let p = pow10 (n - int k); f = \<lfloor>x / p\<rfloor>; low = of_int f * p; high = of_int (f + 1) * p;
          l = (round_double low = Fin x); h = (round_double high = Fin x)
      in if l \<and> h then
           Some (if x - low < high - x then f else if high - x < x - low then f + 1
                 else if even f then f else f + 1)
         else if l then Some f
         else if h then Some (f + 1)
         else None)"

text \<open>The first number of digits that suffices; seventeen always do.  The digits come with
  the place of the decimal point.\<close>

fun first_decimal :: "rat \<Rightarrow> int \<Rightarrow> nat list \<Rightarrow> (int \<times> nat) option" where
  "first_decimal x n [] = None"
| "first_decimal x n (k # ks) =
     (case decimal_at x n k of Some s \<Rightarrow> Some (s, k) | None \<Rightarrow> first_decimal x n ks)"

definition shortest :: "rat \<Rightarrow> (string \<times> int) option" where
  "shortest x =
     (let n = magnitude x
      in case first_decimal x n [1..<18] of
           None \<Rightarrow> None
         | Some (s, k) \<Rightarrow> Some (if s = 10 ^ k then (''1'', n + 1) else (show_nat (nat s), n)))"

definition fraction_text :: "string \<Rightarrow> string" where
  "fraction_text fp = (if fp = [] then [] else CHR ''.'' # fp)"

definition exponent_text :: "int \<Rightarrow> string" where
  "exponent_text e = CHR ''e'' # (if 0 < e then CHR ''+'' else CHR ''-'') # show_nat (nat \<bar>e\<bar>)"

text \<open>\<open>Number::toString\<close>: plain notation up to \<open>10 ^ 21\<close> and down to \<open>10 ^ -6\<close>, otherwise
  with an exponent.\<close>

definition layout :: "string \<Rightarrow> int \<Rightarrow> string" where
  "layout d n =
     (let k = int (length d)
      in if k \<le> n \<and> n \<le> 21 then d @ replicate (nat (n - k)) (CHR ''0'')
         else if 0 < n \<and> n \<le> 21 then take (nat n) d @ fraction_text (drop (nat n) d)
         else if - 6 < n \<and> n \<le> 0 then ''0'' @ fraction_text (replicate (nat (- n)) (CHR ''0'') @ d)
         else take 1 d @ fraction_text (drop 1 d) @ exponent_text (n - 1))"

definition show_positive :: "rat \<Rightarrow> string" where
  "show_positive x = (case shortest x of Some (d, n) \<Rightarrow> layout d n | None \<Rightarrow> [])"

fun show_number :: "jsnum \<Rightarrow> string" where
  "show_number (Fin x) =
     (if x = 0 then ''0'' else if x < 0 then CHR ''-'' # show_positive (- x) else show_positive x)"
| "show_number PosInf = ''Infinity''"
| "show_number NegInf = ''-Infinity''"
| "show_number NaN = ''NaN''"

section \<open>Decimals near a double\<close>

lemma round_half_even_near: "\<bar>y - of_int m\<bar> < 1 / 2 \<Longrightarrow> round_half_even y = m"
proof -
  assume near: "\<bar>y - of_int m\<bar> < 1 / 2"
  show ?thesis
  proof (cases "of_int m \<le> y")
    case True
    with near have "\<lfloor>y\<rfloor> = m" by (intro floor_unique) linarith+
    with near True show ?thesis by (simp add: round_half_even_def Let_def)
  next
    case False
    with near have "\<lfloor>y\<rfloor> = m - 1" by (intro floor_unique) simp_all
    with near False show ?thesis by (simp add: round_half_even_def Let_def)
  qed
qed

lemma ulp_nonzero [simp]: "ulp x \<noteq> 0"
  using ulp_pos[of x] by linarith

lemma round_near:
  assumes "0 < x" "q = of_int m * ulp x" "\<bar>x - q\<bar> < ulp x / 2" "q < pow2 1024"
  shows "round_double x = Fin q"
proof -
  have "x / ulp x - of_int m = (x - q) / ulp x" using assms(2) ulp_pos[of x] by (simp add: diff_divide_distrib)
  then have "\<bar>x / ulp x - of_int m\<bar> < 1 / 2"
    using assms(3) ulp_pos[of x] by (simp add: pos_divide_less_eq)
  then have "round_half_even (x / ulp x) = m" by (rule round_half_even_near)
  with assms show ?thesis by (simp add: round_double_ulp Let_def)
qed

text \<open>A positive double is a multiple of its unit, and of the units below.\<close>

lemma double_multiple:
  assumes "round_double q = Fin q" "0 < q"
  shows "\<exists>k. q = of_int k * ulp q" "q < pow2 1024" "- 1074 \<le> exponent q"
proof -
  define k where "k = round_half_even (q / ulp q)"
  have k: "q = of_int k * ulp q" and big: "q < pow2 1024"
    using assms by (auto simp: round_double_ulp Let_def k_def split: if_splits)
  then show "\<exists>k. q = of_int k * ulp q" "q < pow2 1024" by blast+
  have "of_int k = q / ulp q" using k by (metis nonzero_mult_div_cancel_right ulp_nonzero)
  then have "0 < (of_int k :: rat)" using assms(2) by simp
  then have "0 < k" by simp
  then have "1 * ulp q \<le> of_int k * ulp q" using less_imp_le[OF ulp_pos] by (intro mult_right_mono) simp_all
  then have "ulp q \<le> q" using k by simp
  also have "q < pow2 (exponent q + 1)" using exponent_bounds[OF assms(2)] by blast
  finally show "- 1074 \<le> exponent q" by (simp add: ulp_def)
qed

lemma multiples_apart:
  assumes "a = of_int i * u" "b = of_int j * u" "a < b" "0 < u"
  shows "a + u \<le> (b :: rat)"
proof -
  have "of_int i < (of_int j :: rat)" using assms by simp
  then have "of_int (i + 1) \<le> (of_int j :: rat)" by (simp only: of_int_less_iff of_int_le_iff)
  then have "of_int (i + 1) * u \<le> of_int j * u" using assms(4) by (intro mult_right_mono) simp_all
  then show ?thesis using assms by (simp add: algebra_simps)
qed

lemma half_ulp: "ulp y / 2 = pow2 (max (exponent y - 52) (- 1074) - 1)"
  by (simp add: ulp_def pow2_diff) (simp add: pow2_def)

text \<open>A number \<open>x\<close> nearer to a double \<open>q\<close> than the \<open>2 ^ 54\<close>th part of it.\<close>

lemma close_half:
  assumes "0 < q" "\<bar>x - q\<bar> < q * pow2 (- 54)"
  shows "\<bar>x - q\<bar> < ulp q / 2" "q / 2 < x"
proof -
  have "q * pow2 (- 54) < pow2 (exponent q + 1) * pow2 (- 54)"
    using exponent_bounds[OF assms(1)] by (intro mult_strict_right_mono) simp_all
  also have "\<dots> = pow2 (exponent q - 53)" by (simp add: pow2_add[symmetric])
  also have "\<dots> \<le> ulp q / 2" unfolding half_ulp by simp
  finally show "\<bar>x - q\<bar> < ulp q / 2" using assms(2) by linarith
  have "pow2 (- 54) \<le> 1 / 2" by (simp add: pow2_def)
  then have "q * pow2 (- 54) \<le> q * (1 / 2)" using assms(1) by (intro mult_left_mono) simp_all
  then show "q / 2 < x" using assms(2) by linarith
qed

lemma close_above:
  assumes double: "round_double q = Fin q" "0 < q" and near: "\<bar>x - q\<bar> < q * pow2 (- 54)"
  shows "exponent x \<le> exponent q"
proof (rule ccontr)
  assume "\<not> exponent x \<le> exponent q"
  then have "pow2 (exponent q + 1) \<le> pow2 (exponent x)" by simp
  moreover have "0 < x" using close_half(2)[OF double(2) near] double(2) by linarith
  ultimately have above: "pow2 (exponent q + 1) \<le> x" using exponent_bounds[of x] by linarith
  obtain k where k: "q = of_int k * ulp q" using double_multiple[OF double] by blast
  have "\<exists>j. pow2 (exponent q + 1) = of_int j * ulp q"
    unfolding ulp_def using double_multiple(3)[OF double] by (intro pow2_multiple) simp
  then obtain j where "pow2 (exponent q + 1) = of_int j * ulp q" by blast
  from multiples_apart[OF k this _ ulp_pos] exponent_bounds[OF double(2)]
  have "q + ulp q \<le> x" using above by linarith
  then show False using close_half(1)[OF double(2) near] ulp_pos[of q] by (simp add: abs_if split: if_splits)
qed

lemma close_below:
  assumes double: "round_double q = Fin q" "0 < q" and near: "\<bar>x - q\<bar> < q * pow2 (- 54)"
    and lower: "exponent x < exponent q"
  shows "q = pow2 (exponent q)" "exponent x = exponent q - 1"
proof -
  have x: "q / 2 < x" by (rule close_half(2)[OF double(2) near])
  then have x0: "0 < x" using double(2) by linarith
  have "pow2 (exponent x + 1) \<le> pow2 (exponent q)" using lower by simp
  then have below: "x < pow2 (exponent q)" using exponent_bounds[OF x0] by linarith
  obtain k where k: "q = of_int k * ulp q" using double_multiple[OF double] by blast
  have "\<exists>j. pow2 (exponent q) = of_int j * ulp q"
    unfolding ulp_def using double_multiple(3)[OF double] by (intro pow2_multiple) simp
  then obtain j where j: "pow2 (exponent q) = of_int j * ulp q" by blast
  have "\<not> pow2 (exponent q) < q"
  proof
    assume "pow2 (exponent q) < q"
    from multiples_apart[OF j k this ulp_pos] below close_half(1)[OF double(2) near] ulp_pos[of q]
    show False by (simp add: abs_if split: if_splits)
  qed
  then have le: "q \<le> pow2 (exponent q)" by simp
  then show "q = pow2 (exponent q)" using exponent_bounds[OF double(2)] by linarith
  have "pow2 (exponent q - 1) = pow2 (exponent q) / 2" by (simp add: pow2_diff) (simp add: pow2_def)
  also have "\<dots> \<le> q / 2" using exponent_bounds[OF double(2)] by simp
  also have "\<dots> < pow2 (exponent x + 1)" using x exponent_bounds[OF x0] by linarith
  finally show "exponent x = exponent q - 1" using lower by simp
qed

text \<open>Such a number rounds to \<open>q\<close>.\<close>

lemma round_close:
  assumes double: "round_double q = Fin q" "0 < q" and near: "\<bar>x - q\<bar> < q * pow2 (- 54)"
  shows "round_double x = Fin q"
proof -
  have x0: "0 < x" using close_half(2)[OF double(2) near] double(2) by linarith
  note big = double_multiple(2)[OF double]
  show ?thesis
  proof (cases "exponent x = exponent q")
    case True
    then have u: "ulp x = ulp q" by (simp add: ulp_def)
    obtain k where "q = of_int k * ulp q" using double_multiple[OF double] by blast
    with u close_half(1)[OF double(2) near] show ?thesis by (intro round_near[OF x0 _ _ big, of k]) simp_all
  next
    case False
    then have lower: "exponent x < exponent q" using close_above[OF double near] by simp
    define E where "E = exponent q"
    have q: "q = pow2 E" "exponent x = E - 1" unfolding E_def by (fact close_below[OF double near lower])+
    have "- 1074 \<le> E" unfolding E_def by (rule double_multiple(3)[OF double])
    then have "\<exists>m. pow2 E = of_int m * ulp x" unfolding ulp_def q(2) by (intro pow2_multiple) simp
    then obtain m where "q = of_int m * ulp x" using q(1) by auto
    moreover have "q * pow2 (- 54) \<le> ulp x / 2"
      using q by (simp add: half_ulp pow2_add[symmetric])
    ultimately show ?thesis using near big by (intro round_near[OF x0, of q m]) linarith+
  qed
qed

section \<open>Seventeen digits suffice\<close>

lemma show_nat_bounds:
  "0 < n \<Longrightarrow> 10 ^ (length (show_nat n) - 1) \<le> n \<and> n < 10 ^ length (show_nat n)"
proof (induction n rule: show_nat.induct)
  case (1 n)
  show ?case
  proof (cases "n < 10")
    case True
    with 1(2) show ?thesis by (simp add: show_nat.simps[of n])
  next
    case False
    define l where "l = length (show_nat (n div 10)) - 1"
    have "length (show_nat (n div 10)) = Suc l"
      using show_nat_digits[of "n div 10"] by (cases "show_nat (n div 10)") (simp_all add: l_def)
    with 1(1)[OF False] False have "10 ^ l \<le> n div 10" "n div 10 < 10 ^ Suc l" by simp_all
    then have "10 ^ Suc l \<le> n" "n < 10 ^ Suc (Suc l)" by simp_all
    with False \<open>length _ = Suc l\<close> show ?thesis by (simp add: show_nat.simps[of n])
  qed
qed

lemma digit_count_bounds:
  assumes "0 < i"
  shows "pow10 (digit_count i - 1) \<le> of_int i \<and> of_int i < pow10 (digit_count i)"
proof -
  define n where "n = nat i"
  have n: "0 < n" "i = int n" using assms by (simp_all add: n_def)
  obtain l where l: "length (show_nat n) = Suc l"
    using show_nat_digits[of n] by (cases "show_nat n") simp_all
  have "int (10 ^ l) \<le> i" "i < int (10 ^ Suc l)"
    using show_nat_bounds[OF n(1)] l n(2) by (simp_all only: of_nat_le_iff of_nat_less_iff diff_Suc_1)
  then have "of_int (10 ^ l) \<le> (of_int i :: rat)" "(of_int i :: rat) < of_int (10 ^ Suc l)"
    by (simp_all only: of_int_le_iff of_int_less_iff of_nat_power of_nat_numeral)
  then show ?thesis unfolding digit_count_def n_def[symmetric] l
    using pow10_nat[of l] pow10_nat[of "Suc l"] by simp
qed

lemma magnitude_bounds:
  assumes "0 < x"
  shows "pow10 (magnitude x - 1) \<le> x \<and> x < pow10 (magnitude x)"
proof -
  obtain a b where q: "quotient_of x = (a, b)" by force
  then have b: "0 < b" and x: "x = of_int a / of_int b"
    by (auto dest: quotient_of_denom_pos quotient_of_div)
  with assms have a: "0 < a" by (simp add: zero_less_divide_iff)
  let ?e = "digit_count a - digit_count b"
  note ba = digit_count_bounds[OF a] and bb = digit_count_bounds[OF b]
  have "x < pow10 (digit_count a) / pow10 (digit_count b - 1)"
    unfolding x using ba bb a b by (intro frac_less) simp_all
  then have up: "x < pow10 (?e + 1)" by (simp add: pow10_diff[symmetric] algebra_simps)
  have "pow10 (digit_count a - 1) / pow10 (digit_count b) \<le> x"
    unfolding x using ba bb a b by (intro frac_le) simp_all
  then have low: "pow10 (?e - 1) \<le> x" by (simp add: pow10_diff[symmetric] algebra_simps)
  show ?thesis using up low by (auto simp: magnitude_def q Let_def)
qed

text \<open>A decimal that is found rounds to the number and has the right number of digits.\<close>

lemma decimal_at_sound:
  assumes "decimal_at x n k = Some s" "pow10 (n - 1) \<le> x" "x < pow10 n" "0 < k"
  shows "round_double (of_int s * pow10 (n - int k)) = Fin x" "10 ^ (k - 1) \<le> s" "s \<le> 10 ^ k"
proof -
  let ?p = "pow10 (n - int k)"
  have f: "s = \<lfloor>x / ?p\<rfloor> \<or> s = \<lfloor>x / ?p\<rfloor> + 1"
    using assms(1) by (auto simp: decimal_at_def Let_def split: if_splits)
  show "round_double (of_int s * ?p) = Fin x"
    using assms(1) by (auto simp: decimal_at_def Let_def split: if_splits)
  have "pow10 (int (k - 1)) = pow10 (n - 1) / ?p" using assms(4) by (simp add: pow10_diff[symmetric] of_nat_diff)
  also have "\<dots> \<le> x / ?p" using assms(2) by (simp add: divide_right_mono less_imp_le)
  finally have "of_int (10 ^ (k - 1)) \<le> x / ?p" by (simp only: pow10_nat)
  then have "10 ^ (k - 1) \<le> \<lfloor>x / ?p\<rfloor>" by (simp only: le_floor_iff)
  then show "10 ^ (k - 1) \<le> s" using f by linarith
  have "x / ?p < pow10 n / ?p" using assms(3) by (simp add: divide_strict_right_mono)
  also have "\<dots> = of_int (10 ^ k)" by (simp only: pow10_diff[symmetric] pow10_nat[symmetric]) simp
  finally have "\<lfloor>x / ?p\<rfloor> < 10 ^ k" by (simp only: floor_less_iff)
  then show "s \<le> 10 ^ k" using f by linarith
qed

lemma decimal_17:
  assumes "round_double x = Fin x" "0 < x" "pow10 (n - 1) \<le> x"
  shows "decimal_at x n 17 \<noteq> None"
proof -
  let ?p = "pow10 (n - 17)"
  let ?low = "of_int \<lfloor>x / ?p\<rfloor> * ?p" and ?high = "of_int (\<lfloor>x / ?p\<rfloor> + 1) * ?p"
  have "of_int \<lfloor>x / ?p\<rfloor> \<le> x / ?p" "x / ?p < of_int (\<lfloor>x / ?p\<rfloor> + 1)"
    using floor_correct[of "x / ?p"] by blast+
  then have around: "?low \<le> x" "x < ?high"
    by (simp_all only: pos_le_divide_eq[OF pow10_pos] pos_divide_less_eq[OF pow10_pos])
  have gap: "?high = ?low + ?p" by (simp add: algebra_simps)
  have "?p / 2 < pow10 (n - 1) * pow2 (- 54)"
  proof -
    have "pow10 (n - 17) = pow10 (n - 1) * pow10 (- 16)" by (simp add: pow10_add[symmetric])
    moreover have "pow10 (- 16) / 2 < pow2 (- 54)" by (simp add: pow10_def pow2_def)
    ultimately show ?thesis using mult_strict_left_mono[of "pow10 (- 16) / 2" "pow2 (- 54)" "pow10 (n - 1)"] by simp
  qed
  also have "\<dots> \<le> x * pow2 (- 54)" using assms(3) by (intro mult_right_mono) (simp_all add: less_imp_le)
  finally have "\<bar>?low - x\<bar> < x * pow2 (- 54) \<or> \<bar>?high - x\<bar> < x * pow2 (- 54)"
    using around gap by linarith
  then have "round_double ?low = Fin x \<or> round_double ?high = Fin x"
    using round_close[OF assms(1,2)] by blast
  then show ?thesis by (auto simp: decimal_at_def Let_def)
qed

lemma first_decimal_sound:
  "first_decimal x n ks = Some (s, k) \<Longrightarrow> k \<in> set ks \<and> decimal_at x n k = Some s"
  by (induction ks) (auto split: option.splits)

lemma first_decimal_complete:
  "k \<in> set ks \<Longrightarrow> decimal_at x n k \<noteq> None \<Longrightarrow> first_decimal x n ks \<noteq> None"
  by (induction ks) (auto split: option.splits)

definition is_decimal :: "string \<Rightarrow> bool" where
  "is_decimal d \<longleftrightarrow> d \<noteq> [] \<and> list_all is_digit d \<and> hd d \<noteq> CHR ''0''"

definition decimal_value :: "string \<Rightarrow> int \<Rightarrow> rat" where
  "decimal_value d n = of_int (digits_val 0 d) * pow10 (n - int (length d))"

lemma show_nat_first: "0 < n \<Longrightarrow> hd (show_nat n) \<noteq> CHR ''0''"
proof (induction n rule: show_nat.induct)
  case (1 n)
  show ?case
  proof (cases "n < 10")
    case True
    then have "of_char (char_of (48 + n) :: char) = 48 + n" by (simp add: take_bit_eq_mod)
    have "char_of (48 + n) \<noteq> CHR ''0''"
    proof
      assume "char_of (48 + n) = CHR ''0''"
      then have "of_char (CHR ''0'') = 48 + n" using \<open>of_char _ = _\<close> by simp
      with 1(2) show False by simp
    qed
    with True show ?thesis by (simp add: show_nat.simps[of n])
  next
    case False
    with 1 have "hd (show_nat (n div 10)) \<noteq> CHR ''0''" by simp
    moreover have "show_nat (n div 10) \<noteq> []" using show_nat_digits by blast
    ultimately show ?thesis using False by (simp add: show_nat.simps[of n])
  qed
qed

lemma show_nat_decimal: "0 < n \<Longrightarrow> is_decimal (show_nat n)"
  using show_nat_digits[of n] show_nat_first[of n] by (simp add: is_decimal_def)

lemma show_nat_length:
  assumes "10 ^ (k - 1) \<le> n" "n < 10 ^ k" "0 < k"
  shows "length (show_nat n) = k"
proof -
  have "0 < n" using assms(1) by (metis gr0I not_less zero_less_numeral zero_less_power)
  note b = show_nat_bounds[OF this]
  let ?l = "length (show_nat n)"
  have "0 < ?l" using show_nat_digits[of n] by simp
  have "(10 :: nat) ^ (?l - 1) < 10 ^ k" "(10 :: nat) ^ (k - 1) < 10 ^ ?l" using assms b by linarith+
  then have "?l - 1 < k" "k - 1 < ?l" by (simp_all only: power_strict_increasing_iff)
  with \<open>0 < ?l\<close> assms(3) show ?thesis by linarith
qed

lemma shortest_sound:
  assumes "round_double x = Fin x" "0 < x"
  obtains d n where "shortest x = Some (d, n)" "is_decimal d" "round_double (decimal_value d n) = Fin x"
proof -
  let ?n = "magnitude x"
  note m = magnitude_bounds[OF assms(2)]
  have "first_decimal x ?n [1..<18] \<noteq> None"
    by (rule first_decimal_complete[of 17]) (use decimal_17[OF assms, of ?n] m in simp_all)
  then obtain s k where f: "first_decimal x ?n [1..<18] = Some (s, k)" by auto
  then have k: "0 < k" and at: "decimal_at x ?n k = Some s" by (auto dest: first_decimal_sound)
  note sound = decimal_at_sound[OF at conjunct1[OF m] conjunct2[OF m] k]
  show thesis
  proof (cases "s = 10 ^ k")
    case True
    have "decimal_value ''1'' (?n + 1) = of_int s * pow10 (?n - int k)"
      by (simp only: True pow10_nat[symmetric] pow10_add[symmetric]) (simp add: decimal_value_def)
    with f True sound(1) show thesis
      by (intro that[of "''1''" "?n + 1"]) (simp_all add: shortest_def is_decimal_def char_class_defs)
  next
    case False
    define m where "m = nat s"
    have pos: "0 < s" using sound(2) by (rule less_le_trans[rotated]) simp
    then have m: "s = int m" "0 < m" by (simp_all add: m_def)
    have "int (10 ^ (k - 1)) \<le> int m" "int m < int (10 ^ k)" using sound(2,3) False m(1) by simp_all
    then have "length (show_nat m) = k" using k by (intro show_nat_length) (simp_all only: of_nat_le_iff of_nat_less_iff)
    then have "decimal_value (show_nat m) ?n = of_int s * pow10 (?n - int k)"
      using show_nat_digits[of m] m(1) by (simp add: decimal_value_def)
    with f False sound(1) m_def show_nat_decimal[OF m(2)] show thesis
      by (intro that[of "show_nat m" ?n]) (simp_all add: shortest_def)
  qed
qed

section \<open>Numbers in texts\<close>

definition neg_num :: "jsnum \<Rightarrow> jsnum" where
  "neg_num n = (case n of Fin q \<Rightarrow> Fin (- q) | PosInf \<Rightarrow> NegInf | NegInf \<Rightarrow> PosInf | NaN \<Rightarrow> NaN)"

text \<open>The three parts of a number; a part that begins and is not complete is an error.\<close>

definition digits_at :: "string \<Rightarrow> (string \<times> string) option" where
  "digits_at s = (let d = takeWhile is_digit s in if d = [] then None else Some (d, dropWhile is_digit s))"

definition int_part :: "string \<Rightarrow> (string \<times> string) option" where
  "int_part s = (case digits_at s of
       Some (d, r) \<Rightarrow> if 1 < length d \<and> hd d = CHR ''0'' then None else Some (d, r)
     | None \<Rightarrow> None)"

definition frac_part :: "string \<Rightarrow> (string \<times> string) option" where
  "frac_part s = (case s of c # r \<Rightarrow> if c = CHR ''.'' then digits_at r else Some ([], s) | [] \<Rightarrow> Some ([], s))"

definition exp_part :: "string \<Rightarrow> (int \<times> string) option" where
  "exp_part s = (case s of
       [] \<Rightarrow> Some (0, s)
     | c # r \<Rightarrow>
         if c \<noteq> CHR ''e'' \<and> c \<noteq> CHR ''E'' then Some (0, s)
         else let neg = (r \<noteq> [] \<and> hd r = CHR ''-'');
                  r1 = (if r \<noteq> [] \<and> hd r \<in> {CHR ''+'', CHR ''-''} then tl r else r)
              in map_option (\<lambda>(d, r2). (if neg then - digits_val 0 d else digits_val 0 d, r2)) (digits_at r1))"

definition parse_number :: "string \<Rightarrow> (jsnum \<times> string) option" where
  "parse_number s =
     (let neg = (s \<noteq> [] \<and> hd s = CHR ''-''); s1 = (if neg then tl s else s)
      in case int_part s1 of None \<Rightarrow> None | Some (ip, r1) \<Rightarrow>
         (case frac_part r1 of None \<Rightarrow> None | Some (fp, r2) \<Rightarrow>
         (case exp_part r2 of None \<Rightarrow> None | Some (e, r3) \<Rightarrow>
            let v = round_double (of_int (digits_val 0 (ip @ fp)) * pow10 (e - int (length fp)))
            in Some (if neg then neg_num v else v, r3))))"


section \<open>Round trip\<close>

text \<open>What may follow a number so that it ends there.\<close>

definition ends_number :: "string \<Rightarrow> bool" where
  "ends_number r \<longleftrightarrow> r = [] \<or> \<not> is_digit (hd r) \<and> hd r \<notin> {CHR ''.'', CHR ''e'', CHR ''E''}"

lemma digits_at_append:
  assumes d: "list_all is_digit d" "d \<noteq> []" and r: "r = [] \<or> \<not> is_digit (hd r)"
  shows "digits_at (d @ r) = Some (d, r)"
proof -
  from d have "takeWhile is_digit d = d" "dropWhile is_digit d = []"
    by (simp_all add: takeWhile_eq_all_conv list_all_iff)
  with d r have "takeWhile is_digit (d @ r) = d" "dropWhile is_digit (d @ r) = r"
    by (cases r; simp add: takeWhile_append dropWhile_append list_all_iff)+
  with d show ?thesis by (simp add: digits_at_def)
qed


lemma digits_val_zeros: "digits_val v (replicate m (CHR ''0'')) = v * 10 ^ m"
  by (induction m arbitrary: v) (simp_all add: algebra_simps)

text \<open>A number is read part by part.\<close>

lemma exponent_read:
  assumes "ends_number r"
  shows "exp_part (exponent_text e @ r) = Some (e, r)" "exp_part r = Some (0, r)"
proof -
  have "digits_at (show_nat (nat \<bar>e\<bar>) @ r) = Some (show_nat (nat \<bar>e\<bar>), r)"
    using show_nat_digits assms by (intro digits_at_append) (auto simp: ends_number_def)
  then show "exp_part (exponent_text e @ r) = Some (e, r)"
    using show_nat_digits[of "nat \<bar>e\<bar>"] by (simp add: exp_part_def exponent_text_def)
  show "exp_part r = Some (0, r)"
    using assms by (cases r) (auto simp: exp_part_def ends_number_def)
qed

lemma parse_parts:
  assumes ip: "list_all is_digit ip" "ip \<noteq> []" "length ip = 1 \<or> hd ip \<noteq> CHR ''0''"
    and fp: "list_all is_digit fp" and r: "ends_number r" and et: "et = exponent_text e \<or> et = [] \<and> e = 0"
  shows "parse_number (ip @ fraction_text fp @ et @ r)
    = Some (round_double (of_int (digits_val 0 (ip @ fp)) * pow10 (e - int (length fp))), r)"
proof -
  have rest: "et @ r = [] \<or> \<not> is_digit (hd (et @ r)) \<and> hd (et @ r) \<noteq> CHR ''.''"
    using et r by (auto simp: exponent_text_def ends_number_def char_class_defs)
  then have "fraction_text fp @ et @ r = [] \<or> \<not> is_digit (hd (fraction_text fp @ et @ r))"
    by (auto simp: fraction_text_def char_class_defs)
  with ip have i: "int_part (ip @ fraction_text fp @ et @ r) = Some (ip, fraction_text fp @ et @ r)"
    using digits_at_append[OF ip(1,2)] by (auto simp: int_part_def)
  have f: "frac_part (fraction_text fp @ et @ r) = Some (fp, et @ r)"
  proof (cases "fp = []")
    case True
    with rest show ?thesis by (cases "et @ r") (auto simp: frac_part_def fraction_text_def)
  next
    case False
    with rest fp show ?thesis by (auto simp: frac_part_def fraction_text_def intro!: digits_at_append)
  qed
  have e: "exp_part (et @ r) = Some (e, r)" using et exponent_read[OF r] by auto
  have "hd (ip @ fraction_text fp @ et @ r) \<noteq> CHR ''-''" using ip(1,2) by (cases ip) (auto simp: char_class_defs)
  with i f e show ?thesis by (simp add: parse_number_def)
qed

lemma parse_layout:
  assumes d: "is_decimal d" and r: "ends_number r"
  shows "parse_number (layout d n @ r) = Some (round_double (decimal_value d n), r)"
proof -
  have all: "list_all is_digit d" "d \<noteq> []" "hd d \<noteq> CHR ''0''" "0 < length d" using d by (simp_all add: is_decimal_def)
  have zeros: "list_all is_digit (replicate m (CHR ''0''))" for m
    by (simp add: list_all_iff char_class_defs)
  have parts: "list_all is_digit (take m d)" "list_all is_digit (drop m d)" for m
    using all(1) by (auto simp: list_all_iff dest: in_set_takeD in_set_dropD)
  have first: "hd (take m d) \<noteq> CHR ''0''" "take m d \<noteq> []" if "0 < m" for m
    using all that by (cases d; cases m; simp)+
  let ?k = "int (length d)"
  consider "?k \<le> n" "n \<le> 21" | "0 < n" "n \<le> 21" "n < ?k" | "- 6 < n" "n \<le> 0" | "n \<le> - 6 \<or> 21 < n" by linarith
  then show ?thesis
  proof cases
    case 1
    have "of_int (digits_val 0 (d @ replicate (nat (n - ?k)) (CHR ''0''))) = decimal_value d n"
      using 1 pow10_nat[of "nat (n - ?k)"] by (simp add: digits_val_append digits_val_zeros decimal_value_def)
    with 1 all zeros parse_parts[of "d @ replicate (nat (n - ?k)) (CHR ''0'')" "[]" r "[]" 0] r
    show ?thesis by (simp add: layout_def fraction_text_def pow10_def)
  next
    case 2
    with all parts first r parse_parts[of "take (nat n) d" "drop (nat n) d" r "[]" 0]
    show ?thesis by (simp add: layout_def decimal_value_def)
  next
    case 3
    let ?f = "replicate (nat (- n)) (CHR ''0'') @ d"
    have "digits_val 0 (''0'' @ ?f) = digits_val 0 d" by (simp add: digits_val_append digits_val_zeros)
    moreover have "layout d n = ''0'' @ fraction_text ?f"
      using 3 all(2) by (cases d) (auto simp: layout_def Let_def)
    ultimately show ?thesis using 3 all zeros r parse_parts[of "''0''" ?f r "[]" 0]
      by (simp add: decimal_value_def char_class_defs)
  next
    case 4
    obtain c t where c: "d = [c] @ t" using all(2) by (cases d) simp_all
    from 4 c have "layout d n = [c] @ fraction_text t @ exponent_text (n - 1)"
      by (auto simp: layout_def)
    with all c r parse_parts[of "[c]" t r "exponent_text (n - 1)" "n - 1"] show ?thesis
      by (simp add: decimal_value_def diff_diff_eq)
  qed
qed

text \<open>The numbers that are finite doubles.\<close>

fun double_num :: "jsnum \<Rightarrow> bool" where
  "double_num (Fin q) = (round_double \<bar>q\<bar> = Fin \<bar>q\<bar>)"
| "double_num _ = False"

lemma show_positive_parse:
  assumes "round_double x = Fin x" "0 < x" "ends_number r"
  shows "parse_number (show_positive x @ r) = Some (Fin x, r) \<and> is_digit (hd (show_positive x)) \<and> show_positive x \<noteq> []"
proof -
  obtain d n where s: "shortest x = Some (d, n)" "is_decimal d" "round_double (decimal_value d n) = Fin x"
    using shortest_sound[OF assms(1,2)] by blast
  have "is_digit (hd (layout d n)) \<and> layout d n \<noteq> []"
    using s(2) by (cases d; cases "nat n") (auto simp: is_decimal_def layout_def char_class_defs Let_def)
  with s parse_layout[OF s(2) assms(3), of n] show ?thesis by (simp add: show_positive_def)
qed

lemma parse_show_number:
  assumes "double_num v" "ends_number r"
  shows "parse_number (show_number v @ r) = Some (v, r)"
proof -
  obtain q where v: "v = Fin q" "round_double \<bar>q\<bar> = Fin \<bar>q\<bar>" using assms(1) by (cases v) auto
  consider "q = 0" | "0 < q" | "q < 0" by linarith
  then show ?thesis
  proof cases
    case 1
    then show ?thesis using parse_parts[of "''0''" "[]" r "[]" 0] assms(2) v
      by (simp add: char_class_defs fraction_text_def)
  next
    case 2
    then show ?thesis using show_positive_parse[of q r] v assms(2) by simp
  next
    case 3
    then have p: "parse_number (show_positive (- q) @ r) = Some (Fin (- q), r)"
      "is_digit (hd (show_positive (- q)))" "show_positive (- q) \<noteq> []"
      using show_positive_parse[of "- q" r] v assms(2) by simp_all
    then have "hd (show_positive (- q) @ r) \<noteq> CHR ''-''" by (auto simp: char_class_defs)
    with p 3 v show ?thesis
      by (auto simp: parse_number_def neg_num_def split: option.splits)
  qed
qed

lemma show_number_head:
  assumes "double_num v"
  shows "\<exists>c t. show_number v = c # t \<and> (c = CHR ''-'' \<or> is_digit c)"
proof -
  obtain q where v: "v = Fin q" "round_double \<bar>q\<bar> = Fin \<bar>q\<bar>" using assms by (cases v) auto
  have "ends_number []" by (simp add: ends_number_def)
  then have "0 < q \<Longrightarrow> ?thesis" using show_positive_parse[of q "[]"] v
    by (cases "show_positive q") simp_all
  then show ?thesis using v by (cases "q = 0"; cases "0 < q") (auto simp: char_class_defs)
qed


section \<open>Small integers\<close>

text \<open>Below \<open>2 ^ 53\<close> an integer is printed in plain decimal notation.\<close>

lemma round_half_even_ge: "of_int j \<le> x \<Longrightarrow> j \<le> round_half_even x"
proof -
  assume "of_int j \<le> x"
  then have "j \<le> \<lfloor>x\<rfloor>" by (simp only: le_floor_iff)
  then show ?thesis by (simp add: round_half_even_def Let_def)
qed

lemma round_large:
  assumes "pow2 e \<le> x" "- 1022 \<le> e" "round_double x = Fin r"
  shows "pow2 e \<le> r"
proof -
  have x: "0 < x" using assms(1) pow2_pos[of e] by linarith
  have "pow2 e < pow2 (exponent x + 1)" using exponent_bounds[OF x] assms(1) by linarith
  then have e: "e \<le> exponent x" by simp
  with assms(2) have u: "ulp x = pow2 (exponent x - 52)" by (simp add: ulp_def)
  have "pow2 (int 52) = pow2 (exponent x) / ulp x" by (simp add: u pow2_diff[symmetric])
  also have "\<dots> \<le> x / ulp x" using exponent_bounds[OF x] by (simp add: divide_right_mono less_imp_le)
  finally have "2 ^ 52 \<le> round_half_even (x / ulp x)" unfolding pow2_nat by (rule round_half_even_ge)
  then have "of_int (2 ^ 52) * ulp x \<le> of_int (round_half_even (x / ulp x)) * ulp x"
    by (intro mult_right_mono) (simp_all only: of_int_le_iff less_imp_le[OF ulp_pos])
  moreover have "of_int (2 ^ 52) * ulp x = pow2 (exponent x)"
    by (simp only: u pow2_nat[symmetric] pow2_add[symmetric]) simp
  moreover have "r = of_int (round_half_even (x / ulp x)) * ulp x"
    using assms(3) x by (simp add: round_double_ulp Let_def split: if_splits)
  moreover have "pow2 e \<le> pow2 (exponent x)" using e by simp
  ultimately show ?thesis by linarith
qed

lemma round_int_inj:
  assumes "round_double (of_int j) = Fin (of_int i)" "i < 2 ^ 53" "0 \<le> j"
  shows "j = i"
proof (cases "j \<le> 2 ^ 53")
  case True
  with assms(1,3) round_double_int[of j] show ?thesis by simp
next
  case False
  then have "pow2 53 \<le> of_int j" unfolding pow2_53 by (simp only: of_int_le_iff)
  then have "pow2 53 \<le> of_int i" using round_large[OF _ _ assms(1)] by simp
  then show ?thesis using assms(2) unfolding pow2_53 by (simp only: of_int_le_iff)
qed

lemma first_decimal_least:
  assumes "first_decimal x n [1..<m] = Some (s, k)" "decimal_at x n j \<noteq> None" "1 \<le> j" "j < m"
  shows "k \<le> j"
proof -
  have "k \<le> j" if "first_decimal x n ks = Some (s, k)" "j \<in> set ks" "sorted ks" for ks
    using that assms(2) by (induction ks) (auto split: option.splits dest: first_decimal_sound)
  with assms show ?thesis by simp
qed

lemma char_zero: "char_of (48 :: nat) = CHR ''0''"
  by (simp add: char_of_def bit_iff_odd)

lemma show_nat_zeros: "0 < n \<Longrightarrow> show_nat n @ replicate m (CHR ''0'') = show_nat (n * 10 ^ m)"
proof (induction m arbitrary: n)
  case (Suc m)
  have "show_nat n @ ''0'' = show_nat (n * 10)" using Suc.prems
    by (simp add: show_nat.simps[of "n * 10"] char_zero)
  then have "show_nat n @ replicate (Suc m) (CHR ''0'') = show_nat (n * 10) @ replicate m (CHR ''0'')" by simp
  with Suc.IH[of "n * 10"] Suc.prems show ?case by (simp add: mult.assoc)
qed simp

lemma magnitude_small_int:
  assumes "0 < i" "i < 2 ^ 53"
  obtains l where "magnitude (of_int i) = int l" "0 < l" "l \<le> 16"
proof -
  define n where "n = magnitude (of_int i)"
  have m: "pow10 (n - 1) \<le> of_int i" "of_int i < pow10 n"
    unfolding n_def using magnitude_bounds[of "of_int i"] assms(1) by simp_all
  have "pow10 0 \<le> of_int i" using assms(1) by (simp add: pow10_def)
  with m have "pow10 0 < pow10 n" by linarith
  then obtain l where l: "n = int l" "0 < l" by (metis pow10_less_iff pos_int_cases of_nat_0_less_iff)
  have "i < 10 ^ 16" using assms(2) by simp
  then have "of_int i < pow10 16" using pow10_nat[of 16] by (simp only: of_int_less_iff of_nat_numeral)
  with m have "pow10 (n - 1) < pow10 16" by linarith
  with l show thesis by (intro that[of l]) (simp_all add: n_def)
qed

text \<open>The decimal that is found is the integer itself without its trailing zeros.\<close>

lemma small_int_decimal:
  assumes i: "0 < i" "i < 2 ^ 53" and n: "magnitude (of_int i) = int l" "0 < l" "l \<le> 16"
  obtains s k where "first_decimal (of_int i) (int l) [1..<18] = Some (s, k)" "0 < k" "k \<le> l"
    "10 ^ (k - 1) \<le> s" "s < 10 ^ k" "i = s * 10 ^ (l - k)"
proof -
  have m: "pow10 (int l - 1) \<le> of_int i" "of_int i < pow10 (int l)"
    using magnitude_bounds[of "of_int i"] i(1) n(1) by simp_all
  have own: "decimal_at (of_int i) (int l) l \<noteq> None"
    using round_double_int[of i] i by (auto simp: decimal_at_def Let_def pow10_def)
  then have "first_decimal (of_int i) (int l) [1..<18] \<noteq> None"
    using n by (intro first_decimal_complete[of l]) simp_all
  then obtain s k where f: "first_decimal (of_int i) (int l) [1..<18] = Some (s, k)" by auto
  then have k: "0 < k" and at: "decimal_at (of_int i) (int l) k = Some s" by (auto dest: first_decimal_sound)
  note sound = decimal_at_sound[OF at m k]
  have kl: "k \<le> l" using first_decimal_least[OF f own] n by simp
  then have "pow10 (int l - int k) = of_int (10 ^ (l - k))"
    using pow10_nat[of "l - k"] by (simp only: of_nat_diff)
  with sound(1) have "round_double (of_int (s * 10 ^ (l - k))) = Fin (of_int i)" by (simp only: of_int_mult)
  moreover have "0 < s" using sound(2) by (rule less_le_trans[rotated]) simp
  ultimately have v: "i = s * 10 ^ (l - k)" using i(2) by (intro round_int_inj[symmetric]) simp_all
  moreover have "s \<noteq> 10 ^ k"
  proof
    assume "s = 10 ^ k"
    then have "i = 10 ^ l" using v kl by (simp add: power_add[symmetric])
    then show False using m by (simp add: pow10_def)
  qed
  ultimately show thesis using f k kl sound(2,3) by (intro that[of s k]) simp_all
qed

lemma show_small_positive:
  assumes "0 < i" "i < 2 ^ 53"
  shows "show_positive (of_int i) = show_nat (nat i)"
proof -
  obtain l where l: "magnitude (of_int i) = int l" "0 < l" "l \<le> 16"
    using magnitude_small_int[OF assms] by blast
  obtain s k where s: "first_decimal (of_int i) (int l) [1..<18] = Some (s, k)" "0 < k" "k \<le> l"
    "10 ^ (k - 1) \<le> s" "s < 10 ^ k" "i = s * 10 ^ (l - k)"
    using small_int_decimal[OF assms l] by blast
  define m where "m = nat s"
  have "0 < s" using s(4) by (rule less_le_trans[rotated]) simp
  then have m: "s = int m" "0 < m" by (simp_all add: m_def)
  have "length (show_nat m) = k"
    using s(2,4,5) m(1) by (intro show_nat_length)
      (simp_all only: of_nat_le_iff[symmetric, where 'a = int] of_nat_less_iff[symmetric, where 'a = int]
        of_nat_power of_nat_numeral)
  then have "layout (show_nat m) (int l) = show_nat m @ replicate (l - k) (CHR ''0'')"
    using l(3) s(3) by (simp add: layout_def nat_diff_distrib)
  also have "\<dots> = show_nat (m * 10 ^ (l - k))" by (rule show_nat_zeros[OF m(2)])
  also have "m * 10 ^ (l - k) = nat i" using s(6) m(1) by (simp add: nat_mult_distrib nat_power_eq)
  finally show ?thesis
    using s(1,5) l(1) m by (simp add: show_positive_def shortest_def)
qed

lemma show_small_int:
  assumes "\<bar>i\<bar> < 2 ^ 53"
  shows "show_number (int_num i) = show_int i"
proof -
  have "show_nat 0 = ''0''" by (simp add: show_nat.simps char_zero)
  then show ?thesis
    using assms show_small_positive[of i] show_small_positive[of "- i"]
    by (cases "i = 0") (auto simp: int_num_def show_int_def)
qed

end
