(* ===== verification/Js_Json.thy ===== *)
theory Js_Json
  imports Js_Number
begin

text \<open>
  \<open>JSON.parse\<close> and \<open>JSON.stringify\<close> on texts whose characters are Latin-1 (an escape
  beyond is rejected by the model).  The parser is recursive descent on fuel; twice the
  length of the text is always enough.  Numbers become the nearest double; in an object a
  repeated key keeps its place and takes the last value, and keys that are array indices
  come first.
\<close>

section \<open>Lexical grammar\<close>

definition json_ws :: "char \<Rightarrow> bool" where
  "json_ws c \<longleftrightarrow> c \<in> {CHR 0x20, CHR 0x09, LF, CR}"

definition skip_ws :: "string \<Rightarrow> string" where
  "skip_ws s = dropWhile json_ws s"

lemma skip_ws_simps [simp]:
  "skip_ws [] = []" "skip_ws (c # s) = (if json_ws c then skip_ws s else c # s)"
  by (simp_all add: skip_ws_def)

definition QUOTE :: char where "QUOTE = CHR 0x22"
definition BACKSLASH :: char where "BACKSLASH = CHR 0x5C"

definition hex_val :: "char \<Rightarrow> nat" where
  "hex_val c = (if is_digit c then of_char c - 48
     else if 97 \<le> (of_char c :: nat) then of_char c - 87 else of_char c - 55)"

definition is_hex_digit :: "char \<Rightarrow> bool" where
  "is_hex_digit c \<longleftrightarrow> is_hex c \<or> c \<in> set ''ABCDEF''"

definition simple_escape :: "char \<Rightarrow> char option" where
  "simple_escape c =
     (if c \<in> {QUOTE, BACKSLASH, CHR ''/''} then Some c
      else if c = CHR ''b'' then Some (CHR 0x08)
      else if c = CHR ''f'' then Some (CHR 0x0C)
      else if c = CHR ''n'' then Some LF
      else if c = CHR ''r'' then Some CR
      else if c = CHR ''t'' then Some (CHR 0x09)
      else None)"

definition unicode_escape :: "char \<Rightarrow> char \<Rightarrow> char \<Rightarrow> char \<Rightarrow> char option" where
  "unicode_escape a b c d =
     (if list_all is_hex_digit [a, b, c, d] \<and> hex_val a = 0 \<and> hex_val b = 0
      then Some (char_of (16 * hex_val c + hex_val d)) else None)"

text \<open>The rest of a string literal after its opening quote: the string and what follows the
  closing quote.\<close>

definition add_char :: "char \<Rightarrow> (string \<times> string) option \<Rightarrow> (string \<times> string) option" where
  "add_char c r = map_option (apfst (Cons c)) r"

fun unquote :: "string \<Rightarrow> (string \<times> string) option" where
  "unquote [] = None"
| "unquote (x # s) =
     (if x = QUOTE then Some ([], s)
      else if of_char x < (32 :: nat) then None
      else if x \<noteq> BACKSLASH then add_char x (unquote s)
      else case s of
             [] \<Rightarrow> None
           | e # s1 \<Rightarrow>
               if e \<noteq> CHR ''u'' then
                 (case simple_escape e of None \<Rightarrow> None | Some y \<Rightarrow> add_char y (unquote s1))
               else
                 (case s1 of
                    a # b # c # d # s2 \<Rightarrow>
                      (case unicode_escape a b c d of None \<Rightarrow> None | Some y \<Rightarrow> add_char y (unquote s2))
                  | _ \<Rightarrow> None))"

text \<open>\<open>QuoteJSONString\<close>.\<close>

definition hex_digit :: "nat \<Rightarrow> char" where
  "hex_digit n = char_of (if n < 10 then 48 + n else 87 + n)"

definition quote_char :: "char \<Rightarrow> string" where
  "quote_char c =
     (if c = QUOTE \<or> c = BACKSLASH then [BACKSLASH, c]
      else if c = CHR 0x08 then [BACKSLASH, CHR ''b'']
      else if c = CHR 0x0C then [BACKSLASH, CHR ''f'']
      else if c = LF then [BACKSLASH, CHR ''n'']
      else if c = CR then [BACKSLASH, CHR ''r'']
      else if c = CHR 0x09 then [BACKSLASH, CHR ''t'']
      else if of_char c < (32 :: nat)
        then [BACKSLASH, CHR ''u'', CHR ''0'', CHR ''0'', hex_digit (of_char c div 16),
              hex_digit (of_char c mod 16)]
      else [c])"

definition quote_string :: "string \<Rightarrow> string" where
  "quote_string s = QUOTE # concat (map quote_char s) @ [QUOTE]"

lemma hex_digit_val:
  assumes "n < 16"
  shows "hex_val (hex_digit n) = n \<and> is_hex_digit (hex_digit n)"
proof (cases "n < 10")
  case True
  then have "of_char (hex_digit n) = 48 + n" by (simp add: hex_digit_def take_bit_eq_mod)
  with True show ?thesis by (auto simp: hex_val_def is_hex_digit_def char_class_defs)
next
  case False
  with assms have "of_char (hex_digit n) = 87 + n" by (simp add: hex_digit_def take_bit_eq_mod)
  with False assms show ?thesis by (auto simp: hex_val_def is_hex_digit_def char_class_defs)
qed

lemma unicode_hex:
  assumes "of_char c < (32 :: nat)"
  shows "unicode_escape (CHR ''0'') (CHR ''0'') (hex_digit (of_char c div 16))
    (hex_digit (of_char c mod 16)) = Some c"
proof -
  have "hex_val (CHR ''0'') = 0 \<and> is_hex_digit (CHR ''0'')"
    by (simp add: hex_val_def is_hex_digit_def char_class_defs)
  with assms hex_digit_val[of "of_char c div 16"] hex_digit_val[of "of_char c mod 16"] show ?thesis
    by (simp add: unicode_escape_def)
qed

lemma unquote_quote_char: "unquote (quote_char c @ s) = add_char c (unquote s)"
  using unicode_hex[of c]
  by (auto simp: quote_char_def simple_escape_def QUOTE_def BACKSLASH_def LF_def CR_def)

lemma unquote_quoted: "unquote (concat (map quote_char s) @ QUOTE # r) = Some (s, r)"
  by (induction s) (simp_all add: unquote_quote_char add_char_def)


section \<open>Values\<close>

text \<open>The property keys that are array indices, and the insertion of a property.\<close>

definition array_index :: "string \<Rightarrow> int option" where
  "array_index k =
     (if k \<noteq> [] \<and> list_all is_digit k \<and> (length k = 1 \<or> hd k \<noteq> CHR ''0'')
         \<and> digits_val 0 k < 2 ^ 32 - 1
      then Some (digits_val 0 k) else None)"

definition key_before :: "string \<Rightarrow> string \<Rightarrow> bool" where
  "key_before k l =
     (case array_index k of
        None \<Rightarrow> False
      | Some i \<Rightarrow> (case array_index l of None \<Rightarrow> True | Some j \<Rightarrow> i < j))"

fun put_prop :: "(string \<times> jsval) list \<Rightarrow> string \<Rightarrow> jsval \<Rightarrow> (string \<times> jsval) list" where
  "put_prop [] k v = [(k, v)]"
| "put_prop ((l, u) # ps) k v =
     (if k = l then (k, v) # ps
      else if key_before k l then (k, v) # (l, u) # ps
      else (l, u) # put_prop ps k v)"

datatype 'a presult = Parsed 'a string | Syntax_error | Out_of_fuel

definition parse_key :: "string \<Rightarrow> (string \<times> string) option" where
  "parse_key s =
     (case skip_ws s of
        [] \<Rightarrow> None
      | c # r \<Rightarrow>
          if c \<noteq> QUOTE then None
          else case unquote r of
                 None \<Rightarrow> None
               | Some (k, r1) \<Rightarrow>
                   (case skip_ws r1 of
                      [] \<Rightarrow> None
                    | d # r2 \<Rightarrow> if d = CHR '':'' then Some (k, r2) else None))"

definition parse_scalar :: "string \<Rightarrow> (jsval \<times> string) option" where
  "parse_scalar s =
     (if starts_with s ''null'' then Some (JNull, drop 4 s)
      else if starts_with s ''true'' then Some (JBool True, drop 4 s)
      else if starts_with s ''false'' then Some (JBool False, drop 5 s)
      else if starts_with s [QUOTE] then map_option (apfst JStr) (unquote (tl s))
      else map_option (apfst JNum) (parse_number s))"

fun parse_value :: "nat \<Rightarrow> string \<Rightarrow> jsval presult"
  and parse_elements :: "nat \<Rightarrow> jsval list \<Rightarrow> string \<Rightarrow> jsval presult"
  and parse_members :: "nat \<Rightarrow> (string \<times> jsval) list \<Rightarrow> string \<Rightarrow> jsval presult"
where
  "parse_value 0 s = Out_of_fuel"
| "parse_value (Suc n) s =
     (case skip_ws s of
        [] \<Rightarrow> Syntax_error
      | c # r \<Rightarrow>
          if c = CHR ''['' then
            (case skip_ws r of
               [] \<Rightarrow> Syntax_error
             | d # r1 \<Rightarrow> if d = CHR '']'' then Parsed (JArr []) r1 else parse_elements n [] r)
          else if c = CHR ''{'' then
            (case skip_ws r of
               [] \<Rightarrow> Syntax_error
             | d # r1 \<Rightarrow> if d = CHR ''}'' then Parsed (JObj []) r1 else parse_members n [] r)
          else (case parse_scalar (c # r) of
                  None \<Rightarrow> Syntax_error
                | Some (v, r1) \<Rightarrow> Parsed v r1))"
| "parse_elements 0 acc s = Out_of_fuel"
| "parse_elements (Suc n) acc s =
     (case parse_value n s of
        Parsed v r \<Rightarrow>
          (case skip_ws r of
             [] \<Rightarrow> Syntax_error
           | d # r1 \<Rightarrow>
               if d = CHR '','' then parse_elements n (acc @ [v]) r1
               else if d = CHR '']'' then Parsed (JArr (acc @ [v])) r1
               else Syntax_error)
      | e \<Rightarrow> e)"
| "parse_members 0 acc s = Out_of_fuel"
| "parse_members (Suc n) acc s =
     (case parse_key s of
        None \<Rightarrow> Syntax_error
      | Some (k, r) \<Rightarrow>
          (case parse_value n r of
             Parsed v r1 \<Rightarrow>
               (case skip_ws r1 of
                  [] \<Rightarrow> Syntax_error
                | d # r2 \<Rightarrow>
                    if d = CHR '','' then parse_members n (put_prop acc k v) r2
                    else if d = CHR ''}'' then Parsed (JObj (put_prop acc k v)) r2
                    else Syntax_error)
           | e \<Rightarrow> e))"

text \<open>\<open>JSON.parse\<close>; \<open>None\<close> is the \<open>SyntaxError\<close>.\<close>

definition json_parse :: "string \<Rightarrow> jsval option" where
  "json_parse s =
     (case parse_value (Suc (2 * length s)) s of
        Parsed v r \<Rightarrow> if skip_ws r = [] then Some v else None
      | _ \<Rightarrow> None)"

section \<open>Printing\<close>

text \<open>\<open>JSON.stringify(v, null, gap)\<close> with the current indentation \<open>ind\<close>.  Undefined
  values and functions are left out of objects and are \<open>null\<close> in arrays.\<close>

definition json_number :: "jsnum \<Rightarrow> string" where
  "json_number n = (if n \<in> {PosInf, NegInf, NaN} then ''null'' else show_number n)"

definition new_line :: "string \<Rightarrow> string \<Rightarrow> string" where
  "new_line gap ind = (if gap = [] then [] else LF # ind)"

definition bracketed :: "char \<Rightarrow> char \<Rightarrow> string \<Rightarrow> string \<Rightarrow> string list \<Rightarrow> string" where
  "bracketed a b gap ind items =
     (if items = [] then [a, b]
      else a # new_line gap (ind @ gap) @ join_with (CHR '','' # new_line gap (ind @ gap)) items
        @ new_line gap ind @ [b])"

fun printed :: "jsval \<Rightarrow> bool" where
  "printed JUndef = False"
| "printed (JNative _) = False"
| "printed _ = True"

fun stringify :: "string \<Rightarrow> string \<Rightarrow> jsval \<Rightarrow> string"
  and stringify_all :: "string \<Rightarrow> string \<Rightarrow> jsval list \<Rightarrow> string list"
  and stringify_members ::
    "string \<Rightarrow> string \<Rightarrow> (string \<times> jsval) list \<Rightarrow> string list"
where
  "stringify gap ind (JBool b) = (if b then ''true'' else ''false'')"
| "stringify gap ind (JNum n) = json_number n"
| "stringify gap ind (JStr s) = quote_string s"
| "stringify gap ind (JArr vs) =
     bracketed (CHR ''['') (CHR '']'') gap ind (stringify_all gap (ind @ gap) vs)"
| "stringify gap ind (JObj ps) =
     bracketed (CHR ''{'') (CHR ''}'') gap ind (stringify_members gap (ind @ gap) ps)"
| "stringify gap ind _ = ''null''"
| "stringify_all gap ind [] = []"
| "stringify_all gap ind (v # vs) = stringify gap ind v # stringify_all gap ind vs"
| "stringify_members gap ind [] = []"
| "stringify_members gap ind ((k, v) # ps) =
     (if printed v
      then (quote_string k @ (if gap = [] then '':'' else '': '') @ stringify gap ind v)
        # stringify_members gap ind ps
      else stringify_members gap ind ps)"


section \<open>The parser terminates\<close>

text \<open>Every successful parse consumes at least one character.\<close>

definition consumes :: "(string \<Rightarrow> ('a \<times> string) option) \<Rightarrow> bool" where
  "consumes p \<longleftrightarrow> (\<forall>s v r. p s = Some (v, r) \<longrightarrow> length r < length s)"

lemma consumesD: "consumes p \<Longrightarrow> p s = Some (v, r) \<Longrightarrow> length r < length s"
  by (auto simp: consumes_def)

lemma add_char_Some: "add_char c x = Some (t, r) \<longleftrightarrow> (\<exists>u. x = Some (u, r) \<and> t = c # u)"
  by (auto simp: add_char_def)

lemma unquote_consumes: "consumes unquote"
proof -
  have "unquote s = Some (t, r) \<Longrightarrow> length r < length s" for s t r
  proof (induction s arbitrary: t rule: unquote.induct)
    case (2 x s)
    show ?case
    proof (cases "x = QUOTE \<or> of_char x < (32 :: nat) \<or> x \<noteq> BACKSLASH")
      case True
      with 2 show ?thesis by (fastforce simp: add_char_Some split: if_splits)
    next
      case False
      with 2(4) obtain e s1 where s: "s = e # s1" by (auto split: list.splits)
      show ?thesis
      proof (cases "e = CHR ''u''")
        case True
        with 2(4) False s show ?thesis
          using 2(3)[OF _ _ _ s] by (fastforce simp: add_char_Some split: list.splits option.splits)
      next
        case False
        with 2(4) \<open>\<not> (x = QUOTE \<or> _)\<close> s show ?thesis
          using 2(2)[OF _ _ _ s] by (fastforce simp: add_char_Some split: option.splits)
      qed
    qed
  qed simp
  then show ?thesis by (auto simp: consumes_def)
qed

lemma digits_consume: "digits_at s = Some (d, r) \<Longrightarrow> length r < length s"
proof -
  assume "digits_at s = Some (d, r)"
  then have "d = takeWhile is_digit s" "r = dropWhile is_digit s" "d \<noteq> []"
    by (auto simp: digits_at_def Let_def split: if_splits)
  then show ?thesis using takeWhile_dropWhile_id[of is_digit s]
    by (metis length_append length_greater_0_conv less_add_same_cancel2)
qed

lemma number_consumes: "consumes parse_number"
proof -
  have "length r < length s" if p: "parse_number s = Some (v, r)" for s v r
  proof -
    define s1 where "s1 = (if s \<noteq> [] \<and> hd s = CHR ''-'' then tl s else s)"
    from p obtain ip r1 fp r2 e where
      i: "int_part s1 = Some (ip, r1)" and f: "frac_part r1 = Some (fp, r2)" and e: "exp_part r2 = Some (e, r)"
      by (auto simp: parse_number_def s1_def Let_def split: option.splits prod.splits)
    have "length s1 \<le> length s" by (simp add: s1_def)
    moreover have "length r1 < length s1"
      using i by (auto simp: int_part_def dest: digits_consume split: option.splits if_splits)
    moreover have "length r2 \<le> length r1"
      using f by (auto simp: frac_part_def dest!: digits_consume split: list.splits if_splits)
    moreover have "length r \<le> length r2"
      using e by (cases r2) (auto simp: exp_part_def Let_def dest!: digits_consume split: if_splits)
    ultimately show ?thesis by simp
  qed
  then show ?thesis by (auto simp: consumes_def)
qed

lemma scalar_consumes: "consumes parse_scalar"
proof -
  have "length r < length s" if p: "parse_scalar s = Some (v, r)" for s v r
  proof (cases "starts_with s ''null'' \<or> starts_with s ''true'' \<or> starts_with s ''false''")
    case True
    with p have "r = drop 4 s \<or> r = drop 5 s" by (auto simp: parse_scalar_def split: if_splits)
    moreover from True have "s \<noteq> []" by (auto simp: starts_with_def)
    ultimately show ?thesis by auto
  next
    case False
    have "s \<noteq> []" if "starts_with s [QUOTE]" using that by (auto simp: starts_with_def)
    then have "unquote (tl s) = Some (t, r) \<Longrightarrow> starts_with s [QUOTE] \<Longrightarrow> length r < length s" for t
      using consumesD[OF unquote_consumes, of "tl s" t r] by simp
    with False p show ?thesis
      by (auto simp: parse_scalar_def dest: consumesD[OF number_consumes] split: if_splits)
  qed
  then show ?thesis by (auto simp: consumes_def)
qed

lemma skip_ws_Cons: "skip_ws s = c # r \<Longrightarrow> length r < length s"
  using length_dropWhile_le[of json_ws s] by (simp add: skip_ws_def)

lemma key_consumes: "consumes parse_key"
proof -
  have "length r < length s" if p: "parse_key s = Some (k, r)" for s k r
  proof -
    from p obtain c r0 r1 d where "skip_ws s = c # r0" "unquote r0 = Some (k, r1)" "skip_ws r1 = d # r"
      by (auto simp: parse_key_def split: list.splits if_splits option.splits)
    with skip_ws_Cons[of s c r0] skip_ws_Cons[of r1 d r] consumesD[OF unquote_consumes, of r0 k r1]
    show ?thesis by simp
  qed
  then show ?thesis by (auto simp: consumes_def)
qed

lemma parse_consumes:
  "parse_value n s = Parsed v r \<Longrightarrow> length r < length s"
  "parse_elements n acc s = Parsed v r \<Longrightarrow> length r < length s"
  "parse_members n ps s = Parsed v r \<Longrightarrow> length r < length s"
proof (induction n s and n acc s and n ps s arbitrary: v r and v r and v r
    rule: parse_value_parse_elements_parse_members.induct)
  case (2 n s)
  obtain c t where c: "skip_ws s = c # t" using 2(3) by (auto split: list.splits)
  have t: "length t < length s" using c by (rule skip_ws_Cons)
  show ?case
  proof (cases "c = CHR ''['' \<or> c = CHR ''{''")
    case True
    then have "skip_ws t \<noteq> []" using 2(3) c by (intro notI) auto
    then obtain d t1 where d: "skip_ws t = d # t1" by (meson neq_Nil_conv)
    then have "length t1 < length t" by (rule skip_ws_Cons)
    with 2 c d t True show ?thesis by (auto split: if_splits) force+
  next
    case False
    with 2(3) c have "parse_scalar (c # t) = Some (v, r)" by (auto split: option.splits)
    then have "length r \<le> length t" using consumesD[OF scalar_consumes] by fastforce
    with t show ?thesis by simp
  qed
next
  case (4 n acc s)
  then obtain u q where q: "parse_value n s = Parsed u q" by (auto split: presult.splits)
  then have "length q < length s" by (rule 4(1))
  moreover obtain d t where d: "skip_ws q = d # t" using 4(3) q by (auto split: list.splits)
  moreover from d have "length t < length q" by (rule skip_ws_Cons)
  ultimately show ?case using 4(2)[OF q d] 4(3) q by (auto split: if_splits)
next
  case (6 n ps s)
  then obtain k q where k: "parse_key s = Some (k, q)" by (auto split: option.splits)
  then obtain u q1 where q: "parse_value n q = Parsed u q1" using 6(3) by (auto split: presult.splits)
  then have "length q1 < length q" using 6(1) k by simp
  moreover obtain d t where d: "skip_ws q1 = d # t" using 6(3) k q by (auto split: list.splits)
  moreover from d have "length t < length q1" by (rule skip_ws_Cons)
  moreover have "length q < length s" by (rule consumesD[OF key_consumes k])
  ultimately show ?case using 6(2)[OF k refl q d] 6(3) k q by (auto split: if_splits)
qed simp_all


lemma value_not_out_of_fuel:
  assumes "2 * length s < Suc n"
    and "\<And>t. 2 * length t + 1 < n \<Longrightarrow> parse_elements n [] t \<noteq> Out_of_fuel"
    and "\<And>t. 2 * length t + 1 < n \<Longrightarrow> parse_members n [] t \<noteq> Out_of_fuel"
  shows "parse_value (Suc n) s \<noteq> Out_of_fuel"
proof (cases "skip_ws s")
  case (Cons c t)
  with skip_ws_Cons[OF Cons] assms show ?thesis
    by (cases "skip_ws t") (simp_all split: option.split)
qed simp

lemma elements_not_out_of_fuel:
  assumes "2 * length s + 1 < Suc n" "parse_value n s \<noteq> Out_of_fuel"
    and "\<And>v t. 2 * length t + 1 < n \<Longrightarrow> parse_elements n (acc @ [v]) t \<noteq> Out_of_fuel"
  shows "parse_elements (Suc n) acc s \<noteq> Out_of_fuel"
proof (cases "parse_value n s")
  case (Parsed v r)
  note shorter = parse_consumes(1)[OF Parsed]
  show ?thesis
  proof (cases "skip_ws r")
    case (Cons d t)
    with shorter skip_ws_Cons[OF Cons] Parsed assms show ?thesis by simp
  qed (simp add: Parsed)
qed (use assms in simp_all)

lemma members_not_out_of_fuel:
  assumes "2 * length s + 1 < Suc n"
    and "\<And>t. 2 * length t < n \<Longrightarrow> parse_value n t \<noteq> Out_of_fuel"
    and "\<And>k v t. 2 * length t + 1 < n \<Longrightarrow> parse_members n (put_prop ps k v) t \<noteq> Out_of_fuel"
  shows "parse_members (Suc n) ps s \<noteq> Out_of_fuel"
proof (cases "parse_key s")
  case (Some kr)
  then obtain k r where k: "parse_key s = Some (k, r)" by (cases kr) simp
  note key_shorter = consumesD[OF key_consumes k]
  show ?thesis
  proof (cases "parse_value n r")
    case (Parsed v q)
    note value_shorter = parse_consumes(1)[OF Parsed]
    show ?thesis
    proof (cases "skip_ws q")
      case (Cons d t)
      with key_shorter value_shorter skip_ws_Cons[OF Cons] Parsed k assms show ?thesis by simp
    qed (simp add: Parsed k)
  qed (use k key_shorter assms in simp_all)
qed simp

lemma parse_not_out_of_fuel:
  "2 * length s < n \<Longrightarrow> parse_value n s \<noteq> Out_of_fuel"
  "2 * length s + 1 < n \<Longrightarrow> parse_elements n acc s \<noteq> Out_of_fuel"
  "2 * length s + 1 < n \<Longrightarrow> parse_members n ps s \<noteq> Out_of_fuel"
proof (induction n arbitrary: s acc ps)
  case (Suc n)
  { case 1 then show ?case by (rule value_not_out_of_fuel) (use Suc in blast)+ }
  { case 2 then show ?case by (rule elements_not_out_of_fuel) (use 2 Suc in auto) }
  { case 3 then show ?case by (rule members_not_out_of_fuel) (use Suc in blast)+ }
qed simp_all


text \<open>So \<open>json_parse\<close> never gives up for lack of fuel.\<close>

lemma json_parse_fuel: "parse_value (Suc (2 * length s)) s \<noteq> Out_of_fuel"
  by (rule parse_not_out_of_fuel(1)) simp

text \<open>More fuel changes nothing.\<close>

lemma value_fuel_mono:
  assumes "parse_value (Suc n) s \<noteq> Out_of_fuel"
    and "\<And>t. parse_elements n [] t \<noteq> Out_of_fuel \<Longrightarrow> parse_elements k [] t = parse_elements n [] t"
    and "\<And>t. parse_members n [] t \<noteq> Out_of_fuel \<Longrightarrow> parse_members k [] t = parse_members n [] t"
  shows "parse_value (Suc k) s = parse_value (Suc n) s"
proof (cases "skip_ws s")
  case (Cons c t)
  with assms show ?thesis
    by (cases "skip_ws t"; cases "c = CHR ''[''"; cases "c = CHR ''{''") auto
qed simp

lemma elements_fuel_mono:
  assumes "parse_elements (Suc n) acc s \<noteq> Out_of_fuel"
    and "parse_value n s \<noteq> Out_of_fuel \<Longrightarrow> parse_value k s = parse_value n s"
    and "\<And>v t. parse_elements n (acc @ [v]) t \<noteq> Out_of_fuel \<Longrightarrow>
      parse_elements k (acc @ [v]) t = parse_elements n (acc @ [v]) t"
  shows "parse_elements (Suc k) acc s = parse_elements (Suc n) acc s"
proof (cases "parse_value n s")
  case (Parsed v r)
  with assms show ?thesis by (auto split: list.splits)
qed (use assms in simp_all)

lemma members_fuel_mono:
  assumes "parse_members (Suc n) ps s \<noteq> Out_of_fuel"
    and "\<And>t. parse_value n t \<noteq> Out_of_fuel \<Longrightarrow> parse_value k t = parse_value n t"
    and "\<And>j v t. parse_members n (put_prop ps j v) t \<noteq> Out_of_fuel \<Longrightarrow>
      parse_members k (put_prop ps j v) t = parse_members n (put_prop ps j v) t"
  shows "parse_members (Suc k) ps s = parse_members (Suc n) ps s"
proof (cases "parse_key s")
  case (Some kr)
  then obtain j r where key: "parse_key s = Some (j, r)" by (cases kr) simp
  show ?thesis
  proof (cases "parse_value n r")
    case (Parsed v q)
    with key assms show ?thesis by (auto split: list.splits)
  qed (use key assms in simp_all)
qed simp

lemma parse_fuel_mono:
  "parse_value n s \<noteq> Out_of_fuel \<Longrightarrow> n \<le> m \<Longrightarrow> parse_value m s = parse_value n s"
  "parse_elements n acc s \<noteq> Out_of_fuel \<Longrightarrow> n \<le> m \<Longrightarrow> parse_elements m acc s = parse_elements n acc s"
  "parse_members n ps s \<noteq> Out_of_fuel \<Longrightarrow> n \<le> m \<Longrightarrow> parse_members m ps s = parse_members n ps s"
proof (induction n arbitrary: m s acc ps)
  case (Suc n)
  { case 1
    then obtain k where m: "m = Suc k" and k: "n \<le> k" by (cases m) auto
    show ?case unfolding m by (rule value_fuel_mono[OF 1(1)]) (use Suc.IH k in blast)+ }
  { case 2
    then obtain k where m: "m = Suc k" and k: "n \<le> k" by (cases m) auto
    show ?case unfolding m by (rule elements_fuel_mono[OF 2(1)]) (use Suc.IH k in blast)+ }
  { case 3
    then obtain k where m: "m = Suc k" and k: "n \<le> k" by (cases m) auto
    show ?case unfolding m by (rule members_fuel_mono[OF 3(1)]) (use Suc.IH k in blast)+ }
qed simp_all

lemma parse_value_enough:
  assumes "Suc (2 * length s) \<le> n"
  shows "parse_value n s = parse_value (Suc (2 * length s)) s" "parse_value n s \<noteq> Out_of_fuel"
  using parse_fuel_mono(1)[OF json_parse_fuel assms] json_parse_fuel[of s] by simp_all

section \<open>Round trip\<close>

definition put_all :: "(string \<times> jsval) list \<Rightarrow> (string \<times> jsval) list \<Rightarrow> (string \<times> jsval) list" where
  "put_all acc ps = foldl (\<lambda>a (k, v). put_prop a k v) acc ps"

lemma put_all_simps [simp]:
  "put_all acc [] = acc" "put_all acc ((k, v) # ps) = put_all (put_prop acc k v) ps"
  by (simp_all add: put_all_def)

text \<open>The documents that survive printing: no undefined values, finite doubles, and
  the properties of objects without repetition and in the order of \<open>Object.keys\<close>.\<close>

fun json_doc :: "jsval \<Rightarrow> bool"
  and json_docs :: "jsval list \<Rightarrow> bool"
  and json_props :: "(string \<times> jsval) list \<Rightarrow> bool"
where
  "json_doc JUndef = False"
| "json_doc (JNative _) = False"
| "json_doc JNull = True"
| "json_doc (JBool b) = True"
| "json_doc (JNum n) = double_num n"
| "json_doc (JStr s) = True"
| "json_doc (JArr vs) = json_docs vs"
| "json_doc (JObj ps) = (json_props ps \<and> put_all [] ps = ps)"
| "json_docs [] = True"
| "json_docs (v # vs) = (json_doc v \<and> json_docs vs)"
| "json_props [] = True"
| "json_props ((k, v) # ps) = (json_doc v \<and> json_props ps)"

definition after_value :: "string \<Rightarrow> bool" where
  "after_value s \<longleftrightarrow> s = [] \<or> hd s \<in> {CHR '','', CHR '']'', CHR ''}''} \<or> json_ws (hd s)"

lemma after_value_ends: "after_value s \<Longrightarrow> ends_number s"
  by (cases s) (auto simp: after_value_def ends_number_def json_ws_def char_class_defs)

lemma json_number_double [simp]: "double_num n \<Longrightarrow> json_number n = show_number n"
  by (cases n) (simp_all add: json_number_def)

lemma value_head:
  assumes "json_doc v"
  shows "\<exists>c t. stringify gap ind v = c # t \<and> \<not> json_ws c \<and> c \<noteq> CHR '']'' \<and> c \<noteq> CHR ''}''"
proof (cases v)
  case (JNum n)
  with assms show ?thesis using show_number_head[of n]
    by (auto simp: json_ws_def char_class_defs)
qed (use assms in \<open>auto simp: json_ws_def LF_def CR_def quote_string_def QUOTE_def bracketed_def\<close>)

lemma parse_scalar_print:
  assumes "json_doc v" "after_value r" "\<And>vs. v \<noteq> JArr vs" "\<And>ps. v \<noteq> JObj ps"
  shows "parse_scalar (stringify gap ind v @ r) = Some (v, r)"
proof (cases v)
  case (JNum n)
  with assms(1) have n: "double_num n" by simp
  obtain c t where c: "show_number n = c # t" "c = CHR ''-'' \<or> is_digit c"
    using show_number_head[OF n] by blast
  then have "c \<noteq> CHR ''n'' \<and> c \<noteq> CHR ''t'' \<and> c \<noteq> CHR ''f'' \<and> c \<noteq> QUOTE"
    by (auto simp: char_class_defs QUOTE_def)
  with c JNum n parse_show_number[OF n after_value_ends[OF assms(2)]] show ?thesis
    by (simp add: parse_scalar_def starts_with_def)
next
  case (JStr s)
  have "QUOTE \<noteq> CHR ''n''" "QUOTE \<noteq> CHR ''t''" "QUOTE \<noteq> CHR ''f''" by (simp_all add: QUOTE_def)
  with JStr show ?thesis
    by (simp add: parse_scalar_def starts_with_def quote_string_def unquote_quoted)
qed (use assms in \<open>auto simp: parse_scalar_def starts_with_def\<close>)

lemma skip_ws_append: "list_all json_ws w \<Longrightarrow> skip_ws (w @ s) = skip_ws s"
  by (simp add: skip_ws_def dropWhile_append list_all_iff)

lemma parse_value_ws: "list_all json_ws w \<Longrightarrow> parse_value n (w @ s) = parse_value n s"
  by (cases n) (simp_all add: skip_ws_append)

lemma new_line_ws: "list_all json_ws gap \<Longrightarrow> list_all json_ws ind \<Longrightarrow> list_all json_ws (new_line gap ind)"
  by (auto simp: new_line_def json_ws_def)

lemma parse_key_print:
  assumes "list_all json_ws w"
  shows "parse_key (w @ quote_string k @ CHR '':'' # s) = Some (k, s)"
proof -
  have "\<not> json_ws QUOTE" by (simp add: json_ws_def QUOTE_def LF_def CR_def)
  then show ?thesis
    using assms by (simp add: parse_key_def skip_ws_append quote_string_def unquote_quoted json_ws_def LF_def CR_def)
qed

lemma join_with_Cons:
  "join_with sep (x # xs) = x @ (if xs = [] then [] else sep @ join_with sep xs)"
  by (cases xs) simp_all

lemma after_value_close [simp]:
  "after_value (new_line gap ind @ CHR '']'' # s)" "after_value (new_line gap ind @ CHR ''}'' # s)"
  "after_value (CHR '','' # s)"
  by (simp_all add: after_value_def new_line_def json_ws_def)

lemma stringify_all_Nil [simp]: "stringify_all gap ind vs = [] \<longleftrightarrow> vs = []"
  by (cases vs) simp_all

lemma json_doc_printed: "json_doc v \<Longrightarrow> printed v"
  by (cases v) simp_all

lemma stringify_members_Nil: "json_props ps \<Longrightarrow> stringify_members gap ind ps = [] \<longleftrightarrow> ps = []"
  by (cases ps; cases "hd ps") (auto simp: json_doc_printed)

lemma parse_value_scalar:
  assumes "json_doc v" "after_value r" "\<And>vs. v \<noteq> JArr vs" "\<And>ps. v \<noteq> JObj ps" "0 < n"
  shows "parse_value n (stringify gap ind v @ r) = Parsed v r"
proof -
  obtain c t where c: "stringify gap ind v = c # t" "\<not> json_ws c"
    using value_head[OF assms(1)] by blast
  have "c \<noteq> CHR ''['' \<and> c \<noteq> CHR ''{''"
  proof (cases v)
    case (JNum n)
    with assms(1) c show ?thesis using show_number_head[of n]
      by (auto simp: char_class_defs)
  qed (use assms c in \<open>auto simp: quote_string_def QUOTE_def split: if_splits\<close>)
  with c parse_scalar_print[OF assms(1-4), of gap ind] assms(5) show ?thesis
    by (cases n) simp_all
qed

lemma parse_elements_ws: "list_all json_ws w \<Longrightarrow> parse_elements n acc (w @ s) = parse_elements n acc s"
  by (cases n) (simp_all add: parse_value_ws)

lemma parse_members_ws: "list_all json_ws w \<Longrightarrow> parse_members n ps (w @ s) = parse_members n ps s"
  by (cases n) (simp_all add: parse_key_def skip_ws_append)

text \<open>One element or member, followed by a comma or the closing bracket.\<close>

lemma parse_elements_step:
  assumes "parse_value n s = Parsed v (w @ d # r)" "list_all json_ws w" "\<not> json_ws d"
  shows "parse_elements (Suc n) acc s =
    (if d = CHR '','' then parse_elements n (acc @ [v]) r
     else if d = CHR '']'' then Parsed (JArr (acc @ [v])) r else Syntax_error)"
  using assms by (simp add: skip_ws_append)

lemma parse_members_step:
  assumes "parse_key s = Some (k, t)" "parse_value n t = Parsed v (w @ d # r)" "list_all json_ws w" "\<not> json_ws d"
  shows "parse_members (Suc n) ps s =
    (if d = CHR '','' then parse_members n (put_prop ps k v) r
     else if d = CHR ''}'' then Parsed (JObj (put_prop ps k v)) r else Syntax_error)"
  using assms by (simp add: skip_ws_append)

lemma separators_not_ws [simp]:
  "\<not> json_ws (CHR '','')" "\<not> json_ws (CHR '']'')" "\<not> json_ws (CHR ''}'')" "\<not> json_ws (CHR ''['')"
  "\<not> json_ws (CHR ''{'')"
  by (simp_all add: json_ws_def LF_def CR_def)

lemma after_value_ws: "list_all json_ws w \<Longrightarrow> d \<in> {CHR '','', CHR '']'', CHR ''}''} \<Longrightarrow> after_value (w @ d # r)"
  by (cases w) (auto simp: after_value_def)

text \<open>The text of a non-empty list or object, after its opening bracket.\<close>

lemma elements_print:
  assumes step: "\<And>n r. after_value r \<Longrightarrow> 2 * length (t @ r) < n \<Longrightarrow> parse_value n (t @ r) = Parsed v r"
    and rest: "\<And>n acc. ts \<noteq> [] \<Longrightarrow> 2 * length (join_with sep ts @ w @ CHR '']'' # r) + 1 < n \<Longrightarrow>
      parse_elements n acc (join_with sep ts @ w @ CHR '']'' # r) = Parsed (JArr (acc @ vs)) r"
    and sep: "sep = CHR '','' # nl" "list_all json_ws nl" "list_all json_ws w" "ts = [] \<longleftrightarrow> vs = []"
    and n: "2 * length (join_with sep (t # ts) @ w @ CHR '']'' # r) + 1 < n"
  shows "parse_elements n acc (join_with sep (t # ts) @ w @ CHR '']'' # r) = Parsed (JArr (acc @ v # vs)) r"
proof -
  obtain m where m: "n = Suc m" using n by (cases n) auto
  show ?thesis
  proof (cases "ts = []")
    case True
    have "parse_value m (t @ w @ CHR '']'' # r) = Parsed v (w @ CHR '']'' # r)"
      using n True m sep(3) by (intro step after_value_ws) auto
    from parse_elements_step[OF this sep(3)] True m sep(4) show ?thesis by simp
  next
    case False
    let ?r = "nl @ join_with sep ts @ w @ CHR '']'' # r"
    have "parse_value m (t @ [] @ CHR '','' # ?r) = Parsed v ([] @ CHR '','' # ?r)"
      unfolding append_Nil using n False m by (intro step) (auto simp: join_with_Cons sep(1))
    from parse_elements_step[OF this] have "parse_elements n acc (t @ CHR '','' # ?r)
        = parse_elements m (acc @ [v]) (join_with sep ts @ w @ CHR '']'' # r)"
      by (simp add: m parse_elements_ws sep(2))
    also have "\<dots> = Parsed (JArr ((acc @ [v]) @ vs)) r"
      using n False m by (intro rest) (auto simp: join_with_Cons sep(1))
    finally show ?thesis using False by (simp add: join_with_Cons sep(1))
  qed
qed

lemma members_print:
  assumes step: "\<And>n r. after_value r \<Longrightarrow> 2 * length (t @ r) < n \<Longrightarrow> parse_value n (t @ r) = Parsed v r"
    and rest: "\<And>n acc. ts \<noteq> [] \<Longrightarrow> 2 * length (join_with sep ts @ w @ CHR ''}'' # r) + 1 < n \<Longrightarrow>
      parse_members n acc (join_with sep ts @ w @ CHR ''}'' # r) = Parsed (JObj (put_all acc vs)) r"
    and sep: "sep = CHR '','' # nl" "list_all json_ws nl" "list_all json_ws w" "ts = [] \<longleftrightarrow> vs = []"
      "list_all json_ws sp"
    and n: "2 * length (join_with sep ((quote_string k @ CHR '':'' # sp @ t) # ts) @ w @ CHR ''}'' # r) + 1 < n"
  shows "parse_members n acc (join_with sep ((quote_string k @ CHR '':'' # sp @ t) # ts) @ w @ CHR ''}'' # r)
    = Parsed (JObj (put_all acc ((k, v) # vs))) r"
proof -
  obtain m where m: "n = Suc m" using n by (cases n) auto
  have key: "parse_key (quote_string k @ CHR '':'' # s) = Some (k, s)" for s
    using parse_key_print[of "[]"] by simp
  show ?thesis
  proof (cases "ts = []")
    case True
    have "parse_value m (sp @ t @ w @ CHR ''}'' # r) = Parsed v (w @ CHR ''}'' # r)"
      unfolding parse_value_ws[OF sep(5)]
      using n True m sep(3) by (intro step after_value_ws) auto
    from parse_members_step[OF key this sep(3)] True m sep(4) show ?thesis by simp
  next
    case False
    let ?r = "nl @ join_with sep ts @ w @ CHR ''}'' # r"
    have "parse_value m (sp @ t @ [] @ CHR '','' # ?r) = Parsed v ([] @ CHR '','' # ?r)"
      unfolding append_Nil parse_value_ws[OF sep(5)]
      using n False m by (intro step) (auto simp: join_with_Cons sep(1))
    from parse_members_step[OF key this]
    have "parse_members n acc (quote_string k @ CHR '':'' # sp @ t @ CHR '','' # ?r)
        = parse_members m (put_prop acc k v) (join_with sep ts @ w @ CHR ''}'' # r)"
      by (simp add: m parse_members_ws sep(2))
    also have "\<dots> = Parsed (JObj (put_all (put_prop acc k v) vs)) r"
      using n False m by (intro rest) (auto simp: join_with_Cons sep(1))
    finally show ?thesis using False by (simp add: join_with_Cons sep(1))
  qed
qed


lemma opened_text:
  assumes "items \<noteq> []"
  shows "bracketed a b gap ind items @ r = a # new_line gap (ind @ gap)
    @ join_with (CHR '','' # new_line gap (ind @ gap)) items @ new_line gap ind @ b # r"
  using assms by (simp add: bracketed_def)

lemma skip_to_head:
  assumes "list_all json_ws w" "\<exists>c t. x = c # t \<and> \<not> json_ws c \<and> c \<noteq> d"
  shows "\<exists>c t. skip_ws (w @ x @ s) = c # t \<and> c \<noteq> d"
  using assms by (auto simp: skip_ws_append)

lemma first_element_head:
  assumes "json_docs vs" "vs \<noteq> []"
  shows "\<exists>c t. join_with sep (stringify_all gap ind vs) = c # t \<and> \<not> json_ws c \<and> c \<noteq> CHR '']''"
proof -
  obtain v us where vs: "vs = v # us" using assms(2) by (cases vs) auto
  with assms(1) value_head[of v gap ind] show ?thesis by (auto simp: join_with_Cons)
qed

lemma first_member_head:
  assumes "json_props ps" "ps \<noteq> []"
  shows "\<exists>c t. join_with sep (stringify_members gap ind ps) = c # t \<and> \<not> json_ws c \<and> c \<noteq> CHR ''}''"
proof -
  obtain k v us where ps: "ps = (k, v) # us" using assms(2) by (cases ps) auto
  have "QUOTE \<noteq> CHR ''}''" "\<not> json_ws QUOTE" by (simp_all add: QUOTE_def json_ws_def LF_def CR_def)
  with ps assms(1) show ?thesis by (auto simp: join_with_Cons quote_string_def json_doc_printed)
qed

lemma parse_array_open:
  assumes "skip_ws t = d # q" "d \<noteq> CHR '']''"
  shows "parse_value (Suc n) (CHR ''['' # t) = parse_elements n [] t"
  using assms by simp

lemma parse_object_open:
  assumes "skip_ws t = d # q" "d \<noteq> CHR ''}''"
  shows "parse_value (Suc n) (CHR ''{'' # t) = parse_members n [] t"
  using assms by simp

text \<open>An array or an object is printed between its brackets; what remains to show is that
  its elements or members are read back.\<close>

lemma array_print:
  assumes doc: "json_docs vs" and ws: "list_all json_ws gap" "list_all json_ws ind"
    and fuel: "2 * length (stringify gap ind (JArr vs) @ r) < n"
    and elements: "\<And>w m. vs \<noteq> [] \<Longrightarrow> list_all json_ws w \<Longrightarrow>
      2 * length (join_with (CHR '','' # new_line gap (ind @ gap)) (stringify_all gap (ind @ gap) vs)
        @ w @ CHR '']'' # r) + 1 < m \<Longrightarrow>
      parse_elements m [] (join_with (CHR '','' # new_line gap (ind @ gap)) (stringify_all gap (ind @ gap) vs)
        @ w @ CHR '']'' # r) = Parsed (JArr vs) r"
  shows "parse_value n (stringify gap ind (JArr vs) @ r) = Parsed (JArr vs) r"
proof -
  obtain m where m: "n = Suc m" using fuel by (cases n) auto
  show ?thesis
  proof (cases "vs = []")
    case False
    let ?nl = "new_line gap (ind @ gap)"
    let ?t = "join_with (CHR '','' # ?nl) (stringify_all gap (ind @ gap) vs)"
    have nl: "list_all json_ws ?nl" "list_all json_ws (new_line gap ind)"
      using ws by (auto intro!: new_line_ws)
    have shape: "stringify gap ind (JArr vs) @ r = CHR ''['' # ?nl @ ?t @ new_line gap ind @ CHR '']'' # r"
      using False opened_text[of "stringify_all gap (ind @ gap) vs"] by simp
    obtain d q where "skip_ws (?nl @ ?t @ new_line gap ind @ CHR '']'' # r) = d # q" "d \<noteq> CHR '']''"
      using skip_to_head[OF nl(1) first_element_head[OF doc False]] by metis
    from parse_array_open[OF this] have "parse_value n (stringify gap ind (JArr vs) @ r)
        = parse_elements m [] (?t @ new_line gap ind @ CHR '']'' # r)"
      by (simp only: shape m parse_elements_ws[OF nl(1)])
    also have "\<dots> = Parsed (JArr vs) r"
      using fuel m unfolding shape by (intro elements False nl(2)) auto
    finally show ?thesis .
  qed (simp add: m bracketed_def)
qed

lemma object_print:
  assumes doc: "json_props ps" and ws: "list_all json_ws gap" "list_all json_ws ind"
    and fuel: "2 * length (stringify gap ind (JObj ps) @ r) < n"
    and members: "\<And>w m. ps \<noteq> [] \<Longrightarrow> list_all json_ws w \<Longrightarrow>
      2 * length (join_with (CHR '','' # new_line gap (ind @ gap)) (stringify_members gap (ind @ gap) ps)
        @ w @ CHR ''}'' # r) + 1 < m \<Longrightarrow>
      parse_members m [] (join_with (CHR '','' # new_line gap (ind @ gap)) (stringify_members gap (ind @ gap) ps)
        @ w @ CHR ''}'' # r) = Parsed (JObj ps) r"
  shows "parse_value n (stringify gap ind (JObj ps) @ r) = Parsed (JObj ps) r"
proof -
  obtain m where m: "n = Suc m" using fuel by (cases n) auto
  show ?thesis
  proof (cases "ps = []")
    case False
    let ?nl = "new_line gap (ind @ gap)"
    let ?t = "join_with (CHR '','' # ?nl) (stringify_members gap (ind @ gap) ps)"
    have nl: "list_all json_ws ?nl" "list_all json_ws (new_line gap ind)"
      using ws by (auto intro!: new_line_ws)
    have shape: "stringify gap ind (JObj ps) @ r = CHR ''{'' # ?nl @ ?t @ new_line gap ind @ CHR ''}'' # r"
      using False doc opened_text[of "stringify_members gap (ind @ gap) ps"]
      by (simp add: stringify_members_Nil)
    obtain d q where "skip_ws (?nl @ ?t @ new_line gap ind @ CHR ''}'' # r) = d # q" "d \<noteq> CHR ''}''"
      using skip_to_head[OF nl(1) first_member_head[OF doc False]] by metis
    from parse_object_open[OF this] have "parse_value n (stringify gap ind (JObj ps) @ r)
        = parse_members m [] (?t @ new_line gap ind @ CHR ''}'' # r)"
      by (simp only: shape m parse_members_ws[OF nl(1)])
    also have "\<dots> = Parsed (JObj ps) r"
      using fuel m unfolding shape by (intro members False nl(2)) auto
    finally show ?thesis .
  qed (simp add: m bracketed_def)
qed

lemma parse_print:
  "json_doc v \<Longrightarrow> list_all json_ws gap \<Longrightarrow> list_all json_ws ind \<Longrightarrow> after_value r \<Longrightarrow>
   2 * length (stringify gap ind v @ r) < n \<Longrightarrow>
   parse_value n (stringify gap ind v @ r) = Parsed v r"
  "json_docs vs \<Longrightarrow> vs \<noteq> [] \<Longrightarrow> list_all json_ws gap \<Longrightarrow> list_all json_ws ind \<Longrightarrow> list_all json_ws w \<Longrightarrow>
   2 * length (join_with (CHR '','' # new_line gap ind) (stringify_all gap ind vs) @ w @ CHR '']'' # r) + 1 < n \<Longrightarrow>
   parse_elements n acc (join_with (CHR '','' # new_line gap ind) (stringify_all gap ind vs) @ w @ CHR '']'' # r)
     = Parsed (JArr (acc @ vs)) r"
  "json_props ps \<Longrightarrow> ps \<noteq> [] \<Longrightarrow> list_all json_ws gap \<Longrightarrow> list_all json_ws ind \<Longrightarrow> list_all json_ws w \<Longrightarrow>
   2 * length (join_with (CHR '','' # new_line gap ind) (stringify_members gap ind ps) @ w @ CHR ''}'' # r) + 1 < n \<Longrightarrow>
   parse_members n props (join_with (CHR '','' # new_line gap ind) (stringify_members gap ind ps) @ w @ CHR ''}'' # r)
     = Parsed (JObj (put_all props ps)) r"
proof (induction gap ind v and gap ind vs and gap ind ps arbitrary: n r and n r acc w and n r props w
    rule: stringify_stringify_all_stringify_members.induct)
  case (4 gap ind vs)
  then show ?case by (intro array_print) (auto intro!: new_line_ws)
next
  case (5 gap ind ps)
  then show ?case by (intro object_print) (auto intro!: new_line_ws)
next
  case (8 gap ind v vs)
  have "parse_elements n acc (join_with (CHR '','' # new_line gap ind)
      (stringify gap ind v # stringify_all gap ind vs) @ w @ CHR '']'' # r) = Parsed (JArr (acc @ v # vs)) r"
    by (rule elements_print[where nl = "new_line gap ind"])
       (use 8 in \<open>auto intro: new_line_ws\<close>)
  then show ?case by simp
next
  case (10 gap ind k v ps)
  have p: "printed v" using 10(4) by (simp add: json_doc_printed)
  define sp where "sp = (if gap = [] then [] else '' '')"
  have sp: "(if gap = [] then '':'' else '': '') = CHR '':'' # sp" "list_all json_ws sp"
    by (simp_all add: sp_def json_ws_def)
  have "parse_members n props (join_with (CHR '','' # new_line gap ind)
      ((quote_string k @ CHR '':'' # sp @ stringify gap ind v) # stringify_members gap ind ps) @ w @ CHR ''}'' # r)
      = Parsed (JObj (put_all props ((k, v) # ps))) r"
    by (rule members_print[where nl = "new_line gap ind"])
       (use 10 p sp in \<open>auto intro: new_line_ws simp: stringify_members_Nil\<close>)
  then show ?case using p sp(1) by simp
qed (auto intro!: parse_value_scalar simp del: stringify.simps)


lemma parse_stringify:
  assumes "json_doc v" "list_all json_ws gap"
  shows "json_parse (stringify gap [] v) = Some v"
proof -
  have "parse_value (Suc (2 * length (stringify gap [] v @ []))) (stringify gap [] v @ []) = Parsed v []"
    by (rule parse_print(1)) (use assms in \<open>simp_all add: after_value_def\<close>)
  then show ?thesis by (simp add: json_parse_def)
qed

text \<open>Keys that do not begin with a digit stay in the order of their insertion.\<close>

lemma put_all_names:
  "list_all (\<lambda>k. array_index k = None) (map fst (acc @ ps)) \<Longrightarrow> distinct (map fst (acc @ ps)) \<Longrightarrow>
   put_all acc ps = acc @ ps"
proof (induction ps arbitrary: acc)
  case (Cons kv ps)
  obtain k v where kv: "kv = (k, v)" by force
  have "put_prop acc k v = acc @ [(k, v)]"
    if "list_all (\<lambda>k. array_index k = None) (map fst acc)" "array_index k = None" "k \<notin> set (map fst acc)"
    using that by (induction acc) (auto simp: key_before_def)
  then have "put_prop acc k v = acc @ [(k, v)]" using Cons.prems kv by auto
  with Cons.IH[of "acc @ [(k, v)]"] Cons.prems kv show ?case by simp
qed simp

lemma array_index_name: "k \<noteq> [] \<Longrightarrow> \<not> is_digit (hd k) \<Longrightarrow> array_index k = None"
  by (cases k) (auto simp: array_index_def)

lemma named_keys_doc:
  "json_props ps \<Longrightarrow> list_all (\<lambda>k. k \<noteq> [] \<and> \<not> is_digit (hd k)) (map fst ps) \<Longrightarrow> distinct (map fst ps) \<Longrightarrow>
   json_doc (JObj ps)"
  using put_all_names[of "[]" ps] by (auto simp: list_all_iff array_index_name)


section \<open>Parsed numbers are doubles\<close>

text \<open>Every number that the parser returns is a double or infinite.\<close>

fun doubles :: "jsval \<Rightarrow> bool"
  and doubles_all :: "jsval list \<Rightarrow> bool"
  and doubles_props :: "(string \<times> jsval) list \<Rightarrow> bool"
where
  "doubles (JNum n) = (double_num n \<or> n \<in> {PosInf, NegInf})"
| "doubles (JArr vs) = doubles_all vs"
| "doubles (JObj ps) = doubles_props ps"
| "doubles _ = True"
| "doubles_all [] = True"
| "doubles_all (v # vs) = (doubles v \<and> doubles_all vs)"
| "doubles_props [] = True"
| "doubles_props ((k, v) # ps) = (doubles v \<and> doubles_props ps)"

lemma doubles_append [simp]: "doubles_all (us @ vs) = (doubles_all us \<and> doubles_all vs)"
  by (induction us) auto

lemma doubles_put [simp]: "doubles_props ps \<Longrightarrow> doubles v \<Longrightarrow> doubles_props (put_prop ps k v)"
  by (induction ps k v rule: put_prop.induct) auto

lemma parse_number_double:
  assumes "parse_number s = Some (n, r)"
  shows "double_num n \<or> n \<in> {PosInf, NegInf}"
proof -
  have "n \<in> range round_double \<or> n \<in> neg_num ` range round_double"
    using assms by (auto simp: parse_number_def Let_def split: option.splits if_splits)
  then obtain x where "n = round_double x \<or> n = neg_num (round_double x)" by blast
  moreover have "round_double x = PosInf \<or> (\<exists>q. round_double x = Fin q \<and> round_double q = Fin q \<and> 0 \<le> q)"
    using nonneg_round[of x] round_double_idem[of x] by (auto simp: nonneg_num_def)
  ultimately show ?thesis by (auto simp: neg_num_def)
qed

lemma parse_scalar_doubles: "parse_scalar s = Some (v, r) \<Longrightarrow> doubles v"
  by (auto simp: parse_scalar_def dest: parse_number_double split: if_splits option.splits)

lemma parse_doubles:
  "parse_value n s = Parsed v r \<Longrightarrow> doubles v"
  "parse_elements n acc s = Parsed v r \<Longrightarrow> doubles_all acc \<Longrightarrow> doubles v"
  "parse_members n ps s = Parsed v r \<Longrightarrow> doubles_props ps \<Longrightarrow> doubles v"
proof (induction n arbitrary: s v r acc ps)
  case (Suc n)
  { case 1 then show ?case
      using Suc.IH(2)[of "[]"] Suc.IH(3)[of "[]"]
      by (auto dest: parse_scalar_doubles split: list.splits if_splits option.splits) }
  { case 2 then show ?case
      using Suc.IH(1,2) by (fastforce split: presult.splits list.splits if_splits) }
  { case 3 then show ?case
      using Suc.IH(1,3) by (fastforce split: option.splits presult.splits list.splits if_splits) }
qed simp_all

lemma json_parse_doubles: "json_parse s = Some v \<Longrightarrow> doubles v"
  by (auto simp: json_parse_def simp del: parse_value.simps dest: parse_doubles(1)
      split: presult.splits if_splits)

lemma doubles_get: "doubles_props ps \<Longrightarrow> doubles (obj_get ps k)"
  by (induction ps) (auto simp: proto_prop_def)

end
