(* ===== verification/Node_Path.thy ===== *)
theory Node_Path
  imports Js_String
begin

text \<open>
  The functions of \<open>node:path\<close> (POSIX flavour) that the plugins call.
\<close>

definition path_is_absolute :: "string \<Rightarrow> bool" where
  "path_is_absolute p \<longleftrightarrow> p \<noteq> [] \<and> hd p = CHR ''/''"

text \<open>One segment of \<open>normalizeString\<close>; the stack holds the kept segments, last first.\<close>

definition norm_segment :: "bool \<Rightarrow> string list \<Rightarrow> string \<Rightarrow> string list" where
  "norm_segment up st seg =
     (if seg = [] \<or> seg = ''.'' then st
      else if seg = ''..'' then
        (case st of
           [] \<Rightarrow> if up then [''..''] else []
         | t # ts \<Rightarrow> if t = ''..'' then (if up then ''..'' # st else st) else ts)
      else seg # st)"

definition norm_segments :: "bool \<Rightarrow> string \<Rightarrow> string list" where
  "norm_segments up p = rev (foldl (norm_segment up) [] (split_on CHR ''/'' p))"

definition path_normalize :: "string \<Rightarrow> string" where
  "path_normalize p =
     (if p = [] then ''.''
      else let absolute = path_is_absolute p;
               trailing = (last p = CHR ''/'');
               q = join_with ''/'' (norm_segments (\<not> absolute) p)
           in if q = [] then (if absolute then ''/'' else if trailing then ''./'' else ''.'')
              else (if absolute then ''/'' else []) @ q @ (if trailing then ''/'' else []))"

definition path_join :: "string list \<Rightarrow> string" where
  "path_join ps =
     (let q = join_with ''/'' (filter (\<lambda>p. p \<noteq> []) ps)
      in if q = [] then ''.'' else path_normalize q)"

definition path_basename :: "string \<Rightarrow> string" where
  "path_basename p =
     (let segs = filter (\<lambda>s. s \<noteq> []) (split_on CHR ''/'' p)
      in if segs = [] then [] else last segs)"

definition path_dirname :: "string \<Rightarrow> string" where
  "path_dirname p =
     (let r = dropWhile (\<lambda>c. c \<noteq> CHR ''/'') (dropWhile (\<lambda>c. c = CHR ''/'') (rev p))
      in if p = [] then ''.''
         else if length r \<le> 1 then (if path_is_absolute p then ''/'' else ''.'')
         else if path_is_absolute p \<and> length r = 2 then ''//''
         else rev (tl r))"

lemma split_on_single: "sep \<notin> set s \<Longrightarrow> split_on sep s = [s]"
  by (induction s) auto

lemma split_on_append: "sep \<notin> set s \<Longrightarrow> split_on sep (s @ sep # t) = s # split_on sep t"
  by (induction s) auto

end
