(* ===== verification/Pty_Check.thy ===== *)
theory Pty_Check
  imports Pty_Contract Js_Json Node_Path "HOL-Library.List_Lexorder" "HOL-Library.Char_ord"
begin

text \<open>
  \<open>nix/replay/pty-lifecycle-contract/check.ts\<close>, the check itself: the SQL that stores a
  transcript, the run of \<open>sqlite3\<close> and of the recovery program, the search of its log,
  and the comparisons.  The programs are parameters: what \<open>spawnSync\<close> answers and what
  the queue file holds afterwards.
\<close>

section \<open>SQL text\<close>

definition sqlJSON :: "jsval \<Rightarrow> string" where
  "sqlJSON v = ''json('' @ sqlString (stringify [] [] v) @ '')''"

definition time_json :: "int \<Rightarrow> int \<Rightarrow> jsval" where
  "time_json created completed =
     JObj [(''created'', JNum (int_num created)), (''completed'', JNum (int_num completed))]"

definition exit_message_json :: "exit_record \<Rightarrow> int \<Rightarrow> jsval" where
  "exit_message_json x t = JObj [(''role'', JStr (role_name (x_role x))), (''time'', time_json t t)]"

definition exit_part_json :: "exit_record \<Rightarrow> jsval" where
  "exit_part_json x = JObj [(''type'', JStr ''text''), (''text'', JStr (x_text x))]"

definition insert_message :: "string \<Rightarrow> string \<Rightarrow> jsval \<Rightarrow> string" where
  "insert_message messageID sid v = ''INSERT INTO message (id, session_id, data) VALUES (''
     @ sqlString messageID @ '', '' @ sqlString sid @ '', '' @ sqlJSON v @ '');''"

definition insert_part :: "string \<Rightarrow> string \<Rightarrow> string \<Rightarrow> int \<Rightarrow> jsval \<Rightarrow> string" where
  "insert_part partID messageID sid t v =
     ''INSERT INTO part (id, message_id, session_id, time_created, data) VALUES (''
     @ sqlString partID @ '', '' @ sqlString messageID @ '', '' @ sqlString sid @ '', ''
     @ show_int t @ '', '' @ sqlJSON v @ '');''"

definition insertExitSQL :: "string \<Rightarrow> string \<Rightarrow> exit_record \<Rightarrow> int \<Rightarrow> string" where
  "insertExitSQL i sid x t = join_with [LF]
     [insert_message (''msg_'' @ i) sid (exit_message_json x t),
      insert_part (''part_'' @ i) (''msg_'' @ i) sid t (exit_part_json x)]"

definition exits_sql :: "string \<Rightarrow> string \<Rightarrow> int \<Rightarrow> exit_record list \<Rightarrow> string list" where
  "exits_sql stem sid base xs =
     map (\<lambda>(x, k). insertExitSQL (stem @ show_int (int k)) sid x (base + int k)) (zip xs [0..<length xs])"

definition spawn_message_json :: jsval where
  "spawn_message_json = JObj [(''role'', JStr ''assistant''), (''time'', time_json 1000 2000)]"

definition spawn_part_json :: "contract_case \<Rightarrow> jsval" where
  "spawn_part_json tc = JObj [(''type'', JStr ''tool''), (''tool'', JStr ''pty_spawn''),
     (''state'', JObj [(''status'', JStr ''completed''),
        (''input'', JObj [(''notifyOnExit'', JBool (notify_of tc))]),
        (''output'', JStr (spawnOutput tc))])]"

definition caseSQL :: "contract_case \<Rightarrow> string \<Rightarrow> string" where
  "caseSQL tc workspaceID =
     (let i = safeName (case_name tc); sid = ''ses_'' @ i;
          before = exits_sql (i @ ''_before_'') sid 500 (filter (\<lambda>x. x_order x = Before) (exits tc));
          after = exits_sql (i @ ''_after_'') sid 3000 (filter (\<lambda>x. x_order x = After) (exits tc))
      in join_with [LF]
        ([''INSERT INTO session (id, workspace_id) VALUES ('' @ sqlString sid @ '', ''
            @ sqlString workspaceID @ '');'']
         @ before
         @ [insert_message (''msg_'' @ i @ ''_spawn'') sid spawn_message_json,
            insert_part (''part_'' @ i @ ''_spawn'') (''msg_'' @ i @ ''_spawn'') sid 1000 (spawn_part_json tc)]
         @ after))"

section \<open>Running programs\<close>

record spawn_result =
  sp_error :: "string option"
  sp_status :: "int option"
  sp_stdout :: "string option"
  sp_stderr :: "string option"

datatype check_error =
    Env_missing string
  | Spawn_failed string
  | Command_failed string "string list"
  | Log_missing string
  | Bad_json string
  | Unreadable_file string
  | Pending_differs string
  | Queue_differs string
  | Count_differs string

text \<open>\<open>run\<close>: an error of the start, then a status other than 0 (no status after a signal),
  ends the check.\<close>

definition run_command :: "string \<Rightarrow> string list \<Rightarrow> spawn_result \<Rightarrow> check_error + string \<times> string" where
  "run_command cmd args r =
     (case sp_error r of
        Some m \<Rightarrow> Inl (Spawn_failed m)
      | None \<Rightarrow>
          if sp_status r \<noteq> Some 0 then Inl (Command_failed cmd args)
          else Inr (case sp_stdout r of Some s \<Rightarrow> s | None \<Rightarrow> [],
                    case sp_stderr r of Some s \<Rightarrow> s | None \<Rightarrow> []))"

definition env_value_of :: "(string \<Rightarrow> string option) \<Rightarrow> string \<Rightarrow> check_error + string" where
  "env_value_of e name =
     (case e name of
        Some v \<Rightarrow> if v = [] then Inl (Env_missing name) else Inr v
      | None \<Rightarrow> Inl (Env_missing name))"

definition LOG_PREFIX :: string where "LOG_PREFIX = ''opencode-heal: ''"

definition parse_json :: "string \<Rightarrow> check_error + jsval" where
  "parse_json t = (case json_parse t of None \<Rightarrow> Inl (Bad_json t) | Some v \<Rightarrow> Inr v)"

definition parseHealLog :: "string \<Rightarrow> check_error + jsval" where
  "parseHealLog stdout =
     (case find (\<lambda>l. starts_with l (LOG_PREFIX @ ''{'')) (rev (split_lines (trim stdout))) of
        None \<Rightarrow> Inl (Log_missing stdout)
      | Some l \<Rightarrow> parse_json (drop (length LOG_PREFIX) l))"

section \<open>The check\<close>

text \<open>The programs of one case: \<open>sqlite3\<close> on a database and an input, the recovery program
  on a database and a queue path, and the queue file it leaves.\<close>

record contract_host =
  tmp_dir_path :: string
  schema_text :: "string option"
  sqlite :: "string \<Rightarrow> string \<Rightarrow> spawn_result"
  heal_run :: "string \<Rightarrow> string \<Rightarrow> spawn_result"
  queue_file :: "string \<Rightarrow> string option"

definition read_text :: "string \<Rightarrow> string option \<Rightarrow> check_error + string" where
  "read_text p t = (case t of None \<Rightarrow> Inl (Unreadable_file p) | Some s \<Rightarrow> Inr s)"

definition ensure :: "bool \<Rightarrow> check_error \<Rightarrow> check_error + unit" where
  "ensure b e = (if b then Inr () else Inl e)"

definition check_case :: "contract_host \<Rightarrow> string \<Rightarrow> contract_case \<Rightarrow> check_error + unit" where
  "check_case h heal tc =
     (let expectedPending = sort (pending tc);
          actualPending = sort (unfinishedNotifyOnExitPtys (messagesFor tc));
          db = path_join [tmp_dir_path h, safeName (case_name tc) @ ''.db''];
          queue = path_join [tmp_dir_path h, safeName (case_name tc) @ ''.queue.json''];
          workspaceID = ''wrk_'' @ safeName (case_name tc)
      in ok_bind (ensure (actualPending = expectedPending) (Pending_differs (case_name tc))) (\<lambda>_.
         ok_bind (read_text ''schema'' (schema_text h)) (\<lambda>schema.
         ok_bind (run_command ''sqlite3'' [db] (sqlite h db schema)) (\<lambda>_.
         ok_bind (run_command ''sqlite3'' [db] (sqlite h db (caseSQL tc workspaceID))) (\<lambda>_.
         ok_bind (run_command heal [db] (heal_run h db queue)) (\<lambda>out.
         ok_bind (read_text queue (queue_file h queue)) (\<lambda>qt.
         ok_bind (parse_json qt) (\<lambda>actualQueue.
           let expectedQueue = (if expectedPending \<noteq> [] then [JStr workspaceID] else [])
           in ok_bind (ensure (actualQueue = JArr expectedQueue) (Queue_differs (case_name tc))) (\<lambda>_.
              ok_bind (parseHealLog (fst out)) (\<lambda>healLog.
                ensure (opt_get healLog ''abandoned_pty'' = JNum (int_num (int (length expectedQueue))))
                  (Count_differs (case_name tc))))))))))))"

fun check_cases :: "contract_host \<Rightarrow> string \<Rightarrow> contract_case list \<Rightarrow> check_error + unit" where
  "check_cases h heal [] = Inr ()"
| "check_cases h heal (tc # tcs) = ok_bind (check_case h heal tc) (\<lambda>_. check_cases h heal tcs)"


text \<open>The whole program; \<open>read_cases\<close> reads and parses the file of the cases, whose type
  the source asserts.\<close>

definition check_main ::
  "(string \<Rightarrow> string option) \<Rightarrow> (string \<Rightarrow> check_error + contract_case list) \<Rightarrow> contract_host
   \<Rightarrow> check_error + unit" where
  "check_main env read_cases h =
     ok_bind (env_value_of env ''PTY_LIFECYCLE_CASES'') (\<lambda>casesPath.
     ok_bind (env_value_of env ''OPENCODE_SCHEMA'') (\<lambda>_.
     ok_bind (env_value_of env ''NTFY_SRC'') (\<lambda>_.
     ok_bind (env_value_of env ''OPENCODE_HEAL'') (\<lambda>heal.
     ok_bind (read_cases casesPath) (\<lambda>tcs. check_cases h heal tcs)))))"

section \<open>What the database receives\<close>

text \<open>The string literals of SQL, after the opening quote.\<close>

fun sql_literal :: "string \<Rightarrow> (string \<times> string) option" where
  "sql_literal [] = None"
| "sql_literal [c] = (if c = CHR 0x27 then Some ([], []) else None)"
| "sql_literal (c # d # s) =
     (if c \<noteq> CHR 0x27 then map_option (apfst (Cons c)) (sql_literal (d # s))
      else if d = CHR 0x27 then map_option (apfst (Cons c)) (sql_literal s)
      else Some ([], d # s))"

lemma sql_literal_string:
  assumes "r = [] \<or> hd r \<noteq> CHR 0x27"
  shows "sql_literal (tl (sqlString v @ r)) = Some (v, r)"
proof -
  define body where "body v = concat (map (\<lambda>c. if c = CHR 0x27 then [c, c] else [c]) v) @ [CHR 0x27]" for v
  have "sql_literal (body v @ r) = Some (v, r)" for v
  proof (induction v)
    case Nil
    with assms show ?case by (cases r) (simp_all add: body_def)
  next
    case (Cons c v)
    obtain d s where "body v @ r = d # s" by (cases "body v @ r") (simp_all add: body_def)
    with Cons show ?case by (cases "c = CHR 0x27") (simp_all add: body_def)
  qed
  then show ?thesis by (simp add: sqlString_def body_def)
qed

lemma exit_part_doc: "json_doc (exit_part_json x)"
  unfolding exit_part_json_def by (rule named_keys_doc) (simp_all add: char_class_defs)

lemma notify_input_doc: "json_doc (JObj [(''notifyOnExit'', JBool b)])"
  by (rule named_keys_doc) (simp_all add: char_class_defs)

lemma spawn_state_doc: "json_doc (JObj [(''status'', JStr ''completed''),
    (''input'', JObj [(''notifyOnExit'', JBool b)]), (''output'', JStr t)])"
  by (rule named_keys_doc) (simp_all add: char_class_defs notify_input_doc del: json_doc.simps(8))

lemma spawn_part_doc: "json_doc (spawn_part_json tc)"
  unfolding spawn_part_json_def
  by (rule named_keys_doc) (simp_all add: char_class_defs spawn_state_doc del: json_doc.simps(8))

lemma sqlJSON_literal:
  assumes "json_doc v"
  shows "\<exists>t. sqlJSON v = ''json('' @ sqlString t @ '')''
    \<and> sql_literal (tl (sqlString t @ '')'')) = Some (t, '')'') \<and> json_parse t = Some v"
  using parse_stringify[OF assms, of "[]"] sql_literal_string[of "'')''"]
  by (intro exI[of _ "stringify [] [] v"]) (simp add: sqlJSON_def)

text \<open>The database receives the transcript.  The data of the part that the SQL of a case
  stores for an exit, and for the spawn, is a literal that SQL reads back without its
  quoting and JSON parses back to the very part of the message that the parser of the
  notification plugin is given, whatever quotes, backslashes or control characters it
  holds.\<close>

theorem database_holds_transcript:
  "\<exists>t u. sqlJSON (exit_part_json x) = ''json('' @ sqlString t @ '')''
      \<and> sql_literal (tl (sqlString t @ '')'')) = Some (t, '')'')
      \<and> map_option (\<lambda>v. [v]) (json_parse t) = Some (message_parts (textMessage x))
      \<and> sqlJSON (spawn_part_json tc) = ''json('' @ sqlString u @ '')''
      \<and> sql_literal (tl (sqlString u @ '')'')) = Some (u, '')'')
      \<and> map_option (\<lambda>v. [v]) (json_parse u) = Some (message_parts (spawnMessage tc))"
proof -
  have parts: "message_parts (textMessage x) = [exit_part_json x]"
    "message_parts (spawnMessage tc) = [spawn_part_json tc]"
    by (simp_all add: message_parts_def textMessage_def exit_part_json_def spawnMessage_def spawn_part_json_def)
  obtain t where "sqlJSON (exit_part_json x) = ''json('' @ sqlString t @ '')''"
    "sql_literal (tl (sqlString t @ '')'')) = Some (t, '')'')" "json_parse t = Some (exit_part_json x)"
    using sqlJSON_literal[OF exit_part_doc] by blast
  moreover obtain u where "sqlJSON (spawn_part_json tc) = ''json('' @ sqlString u @ '')''"
    "sql_literal (tl (sqlString u @ '')'')) = Some (u, '')'')" "json_parse u = Some (spawn_part_json tc)"
    using sqlJSON_literal[OF spawn_part_doc] by blast
  ultimately show ?thesis unfolding parts by auto
qed

section \<open>What a passed check means\<close>

lemma sort_eq_set: "sort xs = sort ys \<Longrightarrow> set xs = set ys"
  by (metis set_sort)

lemma sort_Nil_iff [simp]: "sort xs = [] \<longleftrightarrow> xs = []"
  by (metis set_empty set_sort)

lemma check_caseD:
  assumes "check_case h heal tc = Inr ()"
  shows "sort (unfinishedNotifyOnExitPtys (messagesFor tc)) = sort (pending tc)"
    "\<exists>qt. queue_file h (path_join [tmp_dir_path h, safeName (case_name tc) @ ''.queue.json'']) = Some qt
      \<and> json_parse qt = Some (JArr (if pending tc \<noteq> [] then [JStr (''wrk_'' @ safeName (case_name tc))] else []))"
  using assms
  by (auto simp: check_case_def ensure_def read_text_def parse_json_def Let_def
      split: sum.splits if_splits option.splits)

text \<open>C36: A passed check means agreement.  If the check of the cases succeeds, then in every
  case the terminals that the transcript leaves pending are exactly the expected ones,
  without repetition, and the queue file of the recovery program names the workspace of the
  case exactly when the transcript leaves a terminal pending.\<close>

theorem passed_check_agrees:
  assumes "check_main env read_cases h = Inr ()" and "env ''PTY_LIFECYCLE_CASES'' = Some path"
    and "read_cases path = Inr tcs" and "tc \<in> set tcs"
  shows "distinct (pending tc) \<and> (\<forall>i. i \<in> set (pending tc) \<longleftrightarrow> still_pending (messagesFor tc) i)
    \<and> (\<exists>qt. queue_file h (path_join [tmp_dir_path h, safeName (case_name tc) @ ''.queue.json'']) = Some qt
        \<and> json_parse qt = Some (JArr (if \<exists>i. still_pending (messagesFor tc) i
            then [JStr (''wrk_'' @ safeName (case_name tc))] else [])))"
proof -
  obtain heal where "check_cases h heal tcs = Inr ()"
    using assms(1-3) by (auto simp: check_main_def env_value_of_def split: sum.splits if_splits option.splits)
  then have c: "check_case h heal tc = Inr ()"
    using assms(4) by (induction tcs) (auto split: sum.splits)
  have s: "set (pending tc) = {i. still_pending (messagesFor tc) i}"
    using sort_eq_set[OF check_caseD(1)[OF c]] set_unfinished by auto
  moreover have "distinct (pending tc)"
    using check_caseD(1)[OF c] distinct_unfinished[of "messagesFor tc"] by (metis distinct_sort)
  moreover have "pending tc \<noteq> [] \<longleftrightarrow> (\<exists>i. still_pending (messagesFor tc) i)"
    using s by (metis (mono_tags, lifting) empty_Collect_eq set_empty)
  ultimately show ?thesis using check_caseD(2)[OF c] by auto
qed

text \<open>A host on which the first case of \<open>cases.json\<close> passes.\<close>

definition sample_case :: contract_case where
  "sample_case = one_case ''valid-spawn-remains-pending'' None (spawned_text ''pty_1234abcd'' ''true'') []
     [''pty_1234abcd'']"

definition sample_queue :: jsval where
  "sample_queue = JArr [JStr ''wrk_valid_spawn_remains_pending'']"

definition sample_log :: jsval where
  "sample_log = JObj [(''abandoned_pty'', JNum (int_num 1))]"

definition sample_output :: string where
  "sample_output = LOG_PREFIX @ stringify [] [] sample_log"

definition quiet_run :: "string \<Rightarrow> spawn_result" where
  "quiet_run out = \<lparr>sp_error = None, sp_status = Some 0, sp_stdout = Some out, sp_stderr = None\<rparr>"

definition sample_contract_host :: contract_host where
  "sample_contract_host = \<lparr>tmp_dir_path = ''/tmp/x'', schema_text = Some ''schema'',
     sqlite = (\<lambda>db input. quiet_run []),
     heal_run = (\<lambda>db q. quiet_run sample_output),
     queue_file = (\<lambda>q. Some (stringify [] [] sample_queue))\<rparr>"

lemma sample_output_text:
  "sample_output = LOG_PREFIX @ CHR ''{'' # QUOTE # ''abandoned_pty'' @ QUOTE # '':1}''"
proof -
  have "show_int 1 = ''1''" "quote_string ''abandoned_pty'' = QUOTE # ''abandoned_pty'' @ [QUOTE]"
    by code_simp+
  moreover have "json_number (int_num 1) = show_int 1"
    using show_small_int[of 1] by (simp add: json_number_def int_num_def del: show_number.simps)
  ultimately show ?thesis by (simp add: sample_output_def sample_log_def bracketed_def new_line_def)
qed

lemma sample_check: "check_case sample_contract_host heal sample_case = Inr ()"
proof -
  have p: "unfinishedNotifyOnExitPtys (messagesFor sample_case) = [''pty_1234abcd'']"
    "safeName (case_name sample_case) = ''valid_spawn_remains_pending''"
    "pending sample_case = [''pty_1234abcd'']"
    by code_simp+
  have q: "json_parse (stringify [] [] sample_queue) = Some sample_queue"
    by (rule parse_stringify) (simp_all add: sample_queue_def)
  have "json_doc sample_log" unfolding sample_log_def
    by (rule named_keys_doc) (simp_all add: char_class_defs int_num_def)
  then have l: "json_parse (stringify [] [] sample_log) = Some sample_log"
    by (rule parse_stringify) simp
  have "find (\<lambda>l. starts_with l (LOG_PREFIX @ ''{'')) (rev (split_lines (trim sample_output)))
      = Some sample_output"
    unfolding sample_output_text by code_simp
  then have log: "parseHealLog sample_output = Inr sample_log"
    by (simp add: parseHealLog_def parse_json_def l sample_output_def)
  have run: "run_command c args (quiet_run out) = Inr (out, [])" for c args out
    by (simp add: run_command_def quiet_run_def)
  have "opt_get sample_log ''abandoned_pty'' = JNum (int_num 1)" by (simp add: sample_log_def)
  then show ?thesis
    by (simp add: check_case_def p ensure_def read_text_def parse_json_def sample_contract_host_def
        run log q) (simp add: sample_queue_def log ensure_def)
qed

theorem passed_check_agrees_witness:
  "check_main (\<lambda>v. Some ''/p'') (\<lambda>p. Inr [sample_case]) sample_contract_host = Inr ()
   \<and> still_pending (messagesFor sample_case) ''pty_1234abcd''"
proof -
  have "check_case sample_contract_host ''/p'' sample_case = Inr ()" by (rule sample_check)
  then have c: "check_main (\<lambda>v. Some ''/p'') (\<lambda>p. Inr [sample_case]) sample_contract_host = Inr ()"
    by (simp add: check_main_def env_value_of_def)
  from passed_check_agrees[OF c refl refl, of sample_case] have
    "\<forall>i. i \<in> set (pending sample_case) \<longleftrightarrow> still_pending (messagesFor sample_case) i" by simp
  moreover have "''pty_1234abcd'' \<in> set (pending sample_case)" by (simp add: sample_case_def one_case_def)
  ultimately show ?thesis using c by blast
qed

end
