(* ===== verification/Adapter.thy ===== *)
theory Adapter
  imports Js_Value Node_Path
begin

text \<open>
  \<open>plugins/kfactory-adapter/src/index.ts\<close>: the workspace adapter.  Its state is the
  directory tree under the workspaces root; each operation returns the effects it had on
  the host, in order, with its result.  The host's answers (environment variables,
  \<open>realpath\<close>, exit codes, failures of file operations, random bytes) are the record
  \<open>host\<close>.
\<close>

section \<open>Errors and results\<close>

datatype adapter_error =
    NotAbsolute string
  | CannotParse string
  | NotOwnerRepo string
  | UnsafeSegment string string
  | SlugMismatch string string string
  | BadSlugSuffix
  | InvalidSlug string
  | DirectoryMismatch string "string option" string
  | OutsideWorkspaces string string string
  | CloneInvalidSlug string
  | MkdirFailed
  | SpawnFailed
  | CloneExit int
  | SlugCollision string
  | RenameFailed
  | RepoUrlRequired
  | ConfigureInvalidSlug string
  | RmFailed

section \<open>Runtime configuration\<close>

datatype git_outcome = Spawn_error | Closed int
datatype rename_outcome = Renamed | Eexist | Rename_error

record host =
  host_ws_env :: "string option"
  host_realpath :: "string \<Rightarrow> string option"
  host_pid :: string
  host_random2 :: string
  host_random4 :: string
  host_mkdir_ok :: bool
  host_git :: git_outcome
  host_rename_res :: rename_outcome
  host_rm_ok :: bool

definition requireAbsoluteWorkspacesDir :: "string \<Rightarrow> adapter_error + string" where
  "requireAbsoluteWorkspacesDir v = (if \<not> path_is_absolute v then Inl (NotAbsolute v) else Inr v)"

definition workspacesDir :: "host \<Rightarrow> adapter_error + string" where
  "workspacesDir h =
     requireAbsoluteWorkspacesDir
       (case host_ws_env h of Some v \<Rightarrow> v | None \<Rightarrow> ''/var/lib/factory/workspaces'')"

section \<open>URL and slug helpers\<close>

definition is_slug_char :: "char \<Rightarrow> bool" where
  "is_slug_char c \<longleftrightarrow> is_alnum c \<or> c = CHR ''.'' \<or> c = CHR ''_'' \<or> c = CHR ''-''"

text \<open>\<open>/^[a-f0-9]{4}$/\<close>.\<close>

definition hex4 :: "string \<Rightarrow> bool" where
  "hex4 s \<longleftrightarrow> length s = 4 \<and> list_all is_hex s"

text \<open>\<open>SLUG_RE\<close>: the first segment ends at position \<open>i\<close>, the second one before
  the last six characters.\<close>

definition slug_at :: "string \<Rightarrow> nat \<Rightarrow> bool" where
  "slug_at s i =
     (let a = take i s; r = drop i s; t = drop 2 r;
          b = take (length t - 6) t; u = drop (length t - 6) t
      in a \<noteq> [] \<and> list_all is_slug_char a \<and> starts_with r ''--''
         \<and> 7 \<le> length t \<and> list_all is_slug_char b
         \<and> starts_with u ''--'' \<and> list_all is_hex (drop 2 u))"

definition isValidSlug :: "string \<Rightarrow> bool" where
  "isValidSlug s = list_ex (slug_at s) [1..<length s]"

definition to_lower :: "char \<Rightarrow> char" where
  "to_lower c = (if is_upper c then char_of (code_unit c + 32) else c)"

definition is_file_url :: "string \<Rightarrow> bool" where
  "is_file_url url \<longleftrightarrow> map to_lower (take 7 url) = ''file://''"

definition strip_git :: "string \<Rightarrow> string" where
  "strip_git s =
     (if 4 \<le> length s \<and> drop (length s - 4) s = ''.git'' then take (length s - 4) s else s)"

definition is_scheme_char :: "char \<Rightarrow> bool" where
  "is_scheme_char c \<longleftrightarrow> is_alnum c \<or> c = CHR ''+'' \<or> c = CHR ''.'' \<or> c = CHR ''-''"

definition strip_scheme :: "string \<Rightarrow> string" where
  "strip_scheme s =
     (case s of
        [] \<Rightarrow> s
      | c # t \<Rightarrow>
          let rest = dropWhile is_scheme_char t
          in if (is_upper c \<or> is_lower c) \<and> starts_with rest ''://''
             then (case dropWhile (\<lambda>c. c \<noteq> CHR ''/'') (drop 3 rest) of [] \<Rightarrow> [] | _ # p \<Rightarrow> p)
             else s)"

definition strip_user_host :: "string \<Rightarrow> string" where
  "strip_user_host s =
     (let is_user = (\<lambda>c. c \<noteq> CHR ''@'' \<and> c \<noteq> CHR ''/'' \<and> c \<noteq> CHR '':'');
          is_host = (\<lambda>c. c \<noteq> CHR '':'' \<and> c \<noteq> CHR ''/'');
          u = takeWhile is_user s; r = dropWhile is_user s
      in if u \<noteq> [] \<and> r \<noteq> [] \<and> hd r = CHR ''@''
         then let h = takeWhile is_host (tl r); q = dropWhile is_host (tl r)
              in if h \<noteq> [] \<and> q \<noteq> [] \<and> hd q = CHR '':'' then tl q else s
         else s)"

definition assertSlugSafeSegment :: "string \<Rightarrow> string \<Rightarrow> string \<Rightarrow> adapter_error + unit" where
  "assertSlugSafeSegment segment label url =
     (if segment = [] \<or> \<not> list_all is_slug_char segment \<or> str_includes segment ''--''
      then Inl (UnsafeSegment label url) else Inr ())"

definition url_segments :: "string \<Rightarrow> string list" where
  "url_segments url =
     filter (\<lambda>s. s \<noteq> [])
       (map trim (split_on CHR ''/''
          (path_normalize (strip_user_host (strip_scheme (strip_git url))))))"

definition parseOwnerRepo :: "string \<Rightarrow> adapter_error + (string \<times> string)" where
  "parseOwnerRepo url =
     (let segments = url_segments url; n = length segments
      in if n < 2 then Inl (CannotParse url)
         else if \<not> is_file_url url \<and> n \<noteq> 2 then Inl (NotOwnerRepo url)
         else let owner = segments ! (n - 2); repo = segments ! (n - 1)
              in ok_bind (assertSlugSafeSegment owner ''owner'' url) (\<lambda>_.
                 ok_bind (assertSlugSafeSegment repo ''repo'' url) (\<lambda>_.
                 Inr (owner, repo))))"

definition slug_prefix :: "string \<Rightarrow> string \<Rightarrow> string" where
  "slug_prefix owner repo = owner @ ''--'' @ repo @ ''--''"

definition assertSlugMatchesRepo :: "string \<Rightarrow> string \<Rightarrow> adapter_error + unit" where
  "assertSlugMatchesRepo slug url =
     ok_bind (parseOwnerRepo url) (\<lambda>(owner, repo).
       let pre = slug_prefix owner repo
       in if \<not> starts_with slug pre \<or> \<not> hex4 (drop (length pre) slug)
          then Inl (SlugMismatch slug owner repo) else Inr ())"

text \<open>\<open>WorkspaceInfo\<close>: the fields the adapter reads.\<close>

record workspace_info =
  info_name :: string
  info_directory :: "string option"
  info_extra :: jsval

definition parseExtra :: "workspace_info \<Rightarrow> adapter_error + (string \<times> string option)" where
  "parseExtra info =
     (let repoUrl = (case opt_get (info_extra info) ''repoUrl'' of JStr u \<Rightarrow> u | _ \<Rightarrow> [])
      in case opt_get (info_extra info) ''slugSuffix'' of
           JUndef \<Rightarrow> Inr (repoUrl, None)
         | JStr s \<Rightarrow> if hex4 s then Inr (repoUrl, Some s) else Inl BadSlugSuffix
         | _ \<Rightarrow> Inl BadSlugSuffix)"

definition buildWorkspaceSlug :: "host \<Rightarrow> workspace_info \<Rightarrow> adapter_error + string" where
  "buildWorkspaceSlug h info =
     ok_bind (parseExtra info) (\<lambda>(url, slugSuffix).
     ok_bind (parseOwnerRepo url) (\<lambda>(owner, repo).
       Inr (slug_prefix owner repo @ (case slugSuffix of Some x \<Rightarrow> x | None \<Rightarrow> host_random2 h))))"

definition workspaceDir :: "host \<Rightarrow> string \<Rightarrow> adapter_error + string" where
  "workspaceDir h slug = ok_bind (workspacesDir h) (\<lambda>rootDir. Inr (rootDir @ ''/'' @ slug))"

definition expectedWorkspaceDir :: "host \<Rightarrow> workspace_info \<Rightarrow> adapter_error + string" where
  "expectedWorkspaceDir h info =
     (if \<not> isValidSlug (info_name info) then Inl (InvalidSlug (info_name info))
      else ok_bind (workspaceDir h (info_name info)) (\<lambda>expected.
        if info_directory info \<noteq> Some expected
        then Inl (DirectoryMismatch (info_name info) (info_directory info) expected)
        else Inr expected))"

definition assertWithinWorkspaces :: "host \<Rightarrow> string \<Rightarrow> adapter_error + unit" where
  "assertWithinWorkspaces h dir =
     ok_bind (workspacesDir h) (\<lambda>rootDir.
       let realRoot = (case host_realpath h rootDir of Some r \<Rightarrow> r | None \<Rightarrow> rootDir);
           probe = (case host_realpath h dir of Some d \<Rightarrow> d | None \<Rightarrow> dir)
       in if probe \<noteq> realRoot \<and> \<not> starts_with probe (realRoot @ ''/'')
          then Inl (OutsideWorkspaces dir probe realRoot) else Inr ())"

section \<open>Clone\<close>

datatype effect = Mkdir string | Git_clone "string list" | Rename string string | Rm string

type_synonym 'a outcome = "effect list \<times> (adapter_error + 'a)"

definition tmp_dir :: "host \<Rightarrow> string \<Rightarrow> string \<Rightarrow> string" where
  "tmp_dir h rootDir slug =
     rootDir @ ''/.kfactory-clone-'' @ slug @ ''-'' @ host_pid h @ ''-'' @ host_random4 h"

text \<open>The \<open>catch\<close> block: the partial clone is removed if it lies in the workspaces
  root, a failure of the clean-up is only logged.\<close>

definition cleanup :: "host \<Rightarrow> string \<Rightarrow> effect list" where
  "cleanup h tmp =
     (case assertWithinWorkspaces h tmp of
        Inl _ \<Rightarrow> []
      | Inr _ \<Rightarrow> if host_rm_ok h then [Rm tmp] else [])"

definition cloneRepoInto :: "host \<Rightarrow> string \<Rightarrow> string \<Rightarrow> unit outcome" where
  "cloneRepoInto h slug url =
     (if \<not> isValidSlug slug then ([], Inl (CloneInvalidSlug slug))
      else case workspacesDir h of
        Inl e \<Rightarrow> ([], Inl e)
      | Inr rootDir \<Rightarrow>
          let dir = rootDir @ ''/'' @ slug; tmp = tmp_dir h rootDir slug;
              cloned = [Mkdir rootDir, Git_clone [''clone'', ''--'', url, tmp]]
          in if \<not> host_mkdir_ok h then ([], Inl MkdirFailed)
             else case host_git h of
               Spawn_error \<Rightarrow> (Mkdir rootDir # cleanup h tmp, Inl SpawnFailed)
             | Closed status \<Rightarrow>
                 if status \<noteq> 0 then (cloned @ cleanup h tmp, Inl (CloneExit status))
                 else (case host_rename_res h of
                     Renamed \<Rightarrow> (cloned @ [Rename tmp dir], Inr ())
                   | Eexist \<Rightarrow> (cloned @ cleanup h tmp, Inl (SlugCollision dir))
                   | Rename_error \<Rightarrow> (cloned @ cleanup h tmp, Inl RenameFailed)))"

section \<open>The adapter's operations\<close>

definition configure :: "host \<Rightarrow> workspace_info \<Rightarrow> adapter_error + workspace_info" where
  "configure h info =
     ok_bind (buildWorkspaceSlug h info) (\<lambda>slug.
       if \<not> isValidSlug slug then Inl (ConfigureInvalidSlug slug)
       else ok_bind (workspaceDir h slug) (\<lambda>dir.
         Inr (info\<lparr>info_name := slug, info_directory := Some dir\<rparr>)))"

definition create :: "host \<Rightarrow> workspace_info \<Rightarrow> unit outcome" where
  "create h info =
     (case parseExtra info of
        Inl e \<Rightarrow> ([], Inl e)
      | Inr (url, _) \<Rightarrow>
          if url = [] then ([], Inl RepoUrlRequired)
          else case expectedWorkspaceDir h info of
            Inl e \<Rightarrow> ([], Inl e)
          | Inr _ \<Rightarrow>
              (case assertSlugMatchesRepo (info_name info) url of
                 Inl e \<Rightarrow> ([], Inl e)
               | Inr _ \<Rightarrow> cloneRepoInto h (info_name info) url))"

definition remove :: "host \<Rightarrow> workspace_info \<Rightarrow> unit outcome" where
  "remove h info =
     (case expectedWorkspaceDir h info of
        Inl e \<Rightarrow> ([], Inl e)
      | Inr dir \<Rightarrow>
          (case assertWithinWorkspaces h dir of
             Inl e \<Rightarrow> ([], Inl e)
           | Inr _ \<Rightarrow> if host_rm_ok h then ([Rm dir], Inr ()) else ([], Inl RmFailed)))"

definition target :: "host \<Rightarrow> workspace_info \<Rightarrow> adapter_error + string" where
  "target h info = expectedWorkspaceDir h info"

end
