(* ===== verification/Adapter_Props.thy ===== *)
theory Adapter_Props
  imports Adapter
begin

text \<open>
  The adapter's guarantees: the slug grammar and what its guards accept, the agreement of
  \<open>configure\<close> with the checks of \<open>create\<close>, \<open>remove\<close> and \<open>target\<close>, the
  confinement of every deletion to one child of the workspaces root, and the
  all-or-nothing behaviour of a clone.
\<close>

section \<open>The slug grammar\<close>

definition slug_safe :: "string \<Rightarrow> bool" where
  "slug_safe s \<longleftrightarrow> s \<noteq> [] \<and> list_all is_slug_char s \<and> \<not> str_includes s ''--''"

text \<open>The grammar of \<open>SLUG_RE\<close> as a specification.\<close>

definition slug_grammar :: "string \<Rightarrow> bool" where
  "slug_grammar s \<longleftrightarrow>
     (\<exists>a b x. s = a @ ''--'' @ b @ ''--'' @ x \<and> a \<noteq> [] \<and> b \<noteq> []
        \<and> list_all is_slug_char a \<and> list_all is_slug_char b \<and> hex4 x)"

lemma slug_atD:
  assumes "slug_at s i"
  shows "slug_grammar s"
proof -
  define t where "t = drop 2 (drop i s)"
  define b where "b = take (length t - 6) t"
  define u where "u = drop (length t - 6) t"
  have *: "take i s \<noteq> []" "list_all is_slug_char (take i s)" "take 2 (drop i s) = ''--''"
    "7 \<le> length t" "list_all is_slug_char b" "take 2 u = ''--''" "list_all is_hex (drop 2 u)"
    using assms unfolding slug_at_def Let_def t_def[symmetric] b_def[symmetric] u_def[symmetric]
    by (simp_all add: starts_with_def numeral_2_eq_2)
  have "s = take i s @ take 2 (drop i s) @ t"
    unfolding t_def by (simp only: append_take_drop_id)
  moreover have "t = b @ u" by (simp add: b_def u_def)
  moreover have "u = take 2 u @ drop 2 u" by simp
  ultimately have "s = take i s @ ''--'' @ b @ ''--'' @ drop 2 u" using *(3,6) by simp
  moreover have "length (drop 2 u) = 4" using *(4) by (simp add: u_def)
  moreover have "b \<noteq> []" using *(4) by (auto simp: b_def)
  ultimately show ?thesis using * unfolding slug_grammar_def hex4_def by blast
qed

lemma slug_atI:
  assumes "a \<noteq> []" "b \<noteq> []" "list_all is_slug_char a" "list_all is_slug_char b" "hex4 x"
  shows "slug_at (a @ ''--'' @ b @ ''--'' @ x) (length a)"
proof -
  have len: "length x = 4" and hex: "list_all is_hex x" using assms(5) by (simp_all add: hex4_def)
  have pos: "1 \<le> length b" using assms(2) by (cases b) auto
  show ?thesis
    using assms(1,3,4) len hex pos by (simp add: slug_at_def starts_with_def)
qed

lemma isValidSlug_grammar: "isValidSlug s \<longleftrightarrow> slug_grammar s"
proof
  assume "isValidSlug s"
  then show "slug_grammar s" by (auto simp: isValidSlug_def list_ex_iff dest: slug_atD)
next
  assume "slug_grammar s"
  then obtain a b x where s: "s = a @ ''--'' @ b @ ''--'' @ x"
    and ok: "a \<noteq> []" "b \<noteq> []" "list_all is_slug_char a" "list_all is_slug_char b" "hex4 x"
    unfolding slug_grammar_def by blast
  have "1 \<le> length a" using ok(1) by (cases a) auto
  then have "length a \<in> set [1..<length s]" using s by simp
  then show "isValidSlug s"
    using slug_atI[OF ok] s unfolding isValidSlug_def list_ex_iff by blast
qed

lemma slug_char_not_slash: "is_slug_char c \<Longrightarrow> c \<noteq> CHR ''/''"
  by (auto simp: is_slug_char_def char_class_defs)

lemma hex_slug_char: "is_hex c \<Longrightarrow> is_slug_char c"
  by (auto simp: is_slug_char_def char_class_defs)

lemma slug_char_not_ws: "is_slug_char c \<Longrightarrow> \<not> is_ws c"
  by (auto simp: is_slug_char_def char_class_defs)

lemma slug_grammar_chars: "slug_grammar s \<Longrightarrow> list_all is_slug_char s"
proof -
  assume "slug_grammar s"
  then obtain a b x where "s = a @ ''--'' @ b @ ''--'' @ x" "list_all is_slug_char a"
    "list_all is_slug_char b" "list_all is_hex x"
    by (auto simp: slug_grammar_def hex4_def)
  moreover have "is_slug_char CHR ''-''" by (simp add: is_slug_char_def)
  ultimately show ?thesis by (auto simp: list_all_iff hex_slug_char)
qed

lemma slug_grammar_no_slash: "slug_grammar s \<Longrightarrow> CHR ''/'' \<notin> set s"
  using slug_grammar_chars slug_char_not_slash by (auto simp: list_all_iff)

lemma slug_grammar_not_dots: "slug_grammar s \<Longrightarrow> s \<noteq> ''.'' \<and> s \<noteq> ''..''"
proof -
  assume "slug_grammar s"
  then have "9 < length s" by (auto simp: slug_grammar_def hex4_def neq_Nil_conv)
  then show ?thesis by auto
qed

section \<open>Owner and repository\<close>

lemma assertSlugSafeSegment_iff: "assertSlugSafeSegment s l u = Inr () \<longleftrightarrow> slug_safe s"
  by (auto simp: assertSlugSafeSegment_def slug_safe_def)

lemma assertSlugSafeSegment_Inr: "assertSlugSafeSegment s l u = Inr x \<longleftrightarrow> slug_safe s"
  by (auto simp: assertSlugSafeSegment_def slug_safe_def)

lemma parseOwnerRepo_safe:
  "parseOwnerRepo url = Inr (owner, repo) \<Longrightarrow> slug_safe owner \<and> slug_safe repo"
  by (auto simp: parseOwnerRepo_def Let_def assertSlugSafeSegment_Inr
      split: if_splits sum.splits)

lemma slug_prefix_grammar:
  "slug_safe owner \<Longrightarrow> slug_safe repo \<Longrightarrow> hex4 x \<Longrightarrow> slug_grammar (slug_prefix owner repo @ x)"
  unfolding slug_grammar_def slug_prefix_def slug_safe_def by (metis append.assoc)

lemma buildWorkspaceSlug_cases:
  assumes "buildWorkspaceSlug h info = Inr slug" "hex4 (host_random2 h)"
  shows "\<exists>url sfx owner repo x. parseExtra info = Inr (url, sfx)
    \<and> parseOwnerRepo url = Inr (owner, repo) \<and> hex4 x \<and> slug = slug_prefix owner repo @ x"
  using assms
  by (auto simp: buildWorkspaceSlug_def parseExtra_def Let_def
      split: sum.splits jsval.splits if_splits option.splits)

lemma assertSlugMatchesRepo_iff:
  assumes "parseOwnerRepo url = Inr (owner, repo)"
  shows "assertSlugMatchesRepo slug url = Inr () \<longleftrightarrow>
    (\<exists>x. hex4 x \<and> slug = slug_prefix owner repo @ x)"
  using assms
  by (auto simp: assertSlugMatchesRepo_def Let_def starts_with_iff_prefix prefix_def)

lemma expectedWorkspaceDir_iff:
  "expectedWorkspaceDir h info = Inr dir \<longleftrightarrow>
   slug_grammar (info_name info) \<and> info_directory info = Some dir
   \<and> (\<exists>rootDir. workspacesDir h = Inr rootDir \<and> dir = rootDir @ ''/'' @ info_name info)"
  by (auto simp: expectedWorkspaceDir_def workspaceDir_def isValidSlug_grammar
      split: sum.splits if_splits)

lemma parseExtra_update [simp]:
  "parseExtra (info\<lparr>info_name := n, info_directory := d\<rparr>) = parseExtra info"
  by (simp add: parseExtra_def)

lemma configure_cases:
  "configure h info = Inr info' \<Longrightarrow>
   \<exists>slug rootDir. buildWorkspaceSlug h info = Inr slug \<and> slug_grammar slug
     \<and> workspacesDir h = Inr rootDir
     \<and> info' = info\<lparr>info_name := slug, info_directory := Some (rootDir @ ''/'' @ slug)\<rparr>"
  by (auto simp: configure_def workspaceDir_def isValidSlug_grammar split: sum.splits if_splits)

section \<open>URL forms\<close>

definition repo_name :: "string \<Rightarrow> bool" where
  "repo_name s \<longleftrightarrow> slug_safe s \<and> s \<noteq> ''.'' \<and> s \<noteq> ''..''"

lemma repo_name_chars:
  "repo_name s \<Longrightarrow> c \<in> set s \<Longrightarrow> c \<noteq> CHR ''/'' \<and> c \<noteq> CHR ''@'' \<and> c \<noteq> CHR '':'' \<and> \<not> is_ws c"
  by (auto simp: repo_name_def slug_safe_def list_all_iff slug_char_not_ws
      is_slug_char_def char_class_defs)

lemma repo_name_no_slash: "repo_name s \<Longrightarrow> CHR ''/'' \<notin> set s"
  by (blast dest: repo_name_chars)

lemma repo_name_not_Nil: "repo_name s \<Longrightarrow> s \<noteq> []"
  by (simp add: repo_name_def slug_safe_def)

lemma split_two:
  "repo_name a \<Longrightarrow> repo_name b \<Longrightarrow> split_on CHR ''/'' (a @ CHR ''/'' # b) = [a, b]"
  by (simp add: split_on_append split_on_single repo_name_no_slash)

lemma norm_segments_two:
  "repo_name a \<Longrightarrow> repo_name b \<Longrightarrow> norm_segments up (a @ CHR ''/'' # b) = [a, b]"
  by (simp add: norm_segments_def split_two norm_segment_def repo_name_not_Nil)
     (simp add: repo_name_def)

lemma path_normalize_two:
  assumes "repo_name a" "repo_name b"
  shows "path_normalize (a @ CHR ''/'' # b) = a @ CHR ''/'' # b"
proof -
  have "hd (a @ CHR ''/'' # b) \<noteq> CHR ''/''" "last (a @ CHR ''/'' # b) \<noteq> CHR ''/''"
    using assms repo_name_not_Nil[of a] repo_name_not_Nil[of b]
      repo_name_chars[OF assms(1), of "hd a"] repo_name_chars[OF assms(2), of "last b"]
    by auto
  then show ?thesis
    using assms by (simp add: path_normalize_def path_is_absolute_def norm_segments_two Let_def)
qed

lemma strip_git_suffix: "strip_git (s @ ''.git'') = s"
  by (simp add: strip_git_def)

lemma takeWhile_stop: "(\<And>c. c \<in> set u \<Longrightarrow> P c) \<Longrightarrow> \<not> P x \<Longrightarrow> takeWhile P (u @ x # v) = u"
  by (induction u) auto

lemma dropWhile_stop: "(\<And>c. c \<in> set u \<Longrightarrow> P c) \<Longrightarrow> \<not> P x \<Longrightarrow> dropWhile P (u @ x # v) = x # v"
  by (induction u) auto

definition host_name :: "string \<Rightarrow> bool" where
  "host_name s \<longleftrightarrow> s \<noteq> [] \<and> CHR ''/'' \<notin> set s \<and> CHR '':'' \<notin> set s"

lemma strip_user_host_path:
  assumes "repo_name a"
  shows "strip_user_host (a @ CHR ''/'' # b) = a @ CHR ''/'' # b"
proof -
  have "dropWhile (\<lambda>c. c \<noteq> CHR ''@'' \<and> c \<noteq> CHR ''/'' \<and> c \<noteq> CHR '':'') (a @ CHR ''/'' # b)
    = CHR ''/'' # b"
    using repo_name_chars[OF assms] by (intro dropWhile_stop) auto
  then show ?thesis by (simp add: strip_user_host_def Let_def)
qed

lemma strip_user_host_ssh:
  assumes "host_name hs"
  shows "strip_user_host (''git@'' @ hs @ CHR '':'' # p) = p"
proof -
  let ?P = "\<lambda>c. c \<noteq> CHR '':'' \<and> c \<noteq> CHR ''/''"
  have "dropWhile ?P (hs @ CHR '':'' # p) = CHR '':'' # p"
    "takeWhile ?P (hs @ CHR '':'' # p) = hs"
    using assms by (auto intro!: dropWhile_stop takeWhile_stop simp: host_name_def)
  then show ?thesis using assms by (simp add: strip_user_host_def Let_def host_name_def)
qed

lemma strip_scheme_ssh: "strip_scheme (''git@'' @ s) = ''git@'' @ s"
  by (simp add: strip_scheme_def is_scheme_char_def char_class_defs starts_with_def)

lemma strip_scheme_https:
  assumes "host_name hs"
  shows "strip_scheme (''https://'' @ hs @ CHR ''/'' # p) = p"
proof -
  have "dropWhile (\<lambda>c. c \<noteq> CHR ''/'') (hs @ CHR ''/'' # p) = CHR ''/'' # p"
    using assms by (intro dropWhile_stop) (auto simp: host_name_def)
  then show ?thesis
    by (simp add: strip_scheme_def is_scheme_char_def char_class_defs starts_with_def Let_def)
qed

lemma url_segments_path:
  assumes "strip_user_host (strip_scheme (strip_git url)) = a @ CHR ''/'' # b"
    and "repo_name a" "repo_name b"
  shows "url_segments url = [a, b]"
proof -
  have "trim a = a" "trim b = b" using assms(2,3) by (auto intro!: trim_no_ws dest: repo_name_chars)
  then show ?thesis
    using assms by (simp add: url_segments_def path_normalize_two split_two repo_name_not_Nil)
qed

lemma parseOwnerRepo_path:
  assumes "url_segments url = [a, b]" "repo_name a" "repo_name b"
  shows "parseOwnerRepo url = Inr (a, b)"
proof -
  have "assertSlugSafeSegment a l url = Inr ()" "assertSlugSafeSegment b l url = Inr ()" for l
    using assms(2,3) by (simp_all add: assertSlugSafeSegment_iff repo_name_def)
  with assms(1) show ?thesis by (simp add: parseOwnerRepo_def Let_def)
qed

section \<open>The effects on the directory tree\<close>

text \<open>A tree is the set of existing paths.  A clone creates its last argument, a rename
  moves a path, \<open>rm -rf\<close> deletes a path and everything below it.\<close>

fun apply_effect :: "effect \<Rightarrow> string set \<Rightarrow> string set" where
  "apply_effect (Mkdir p) t = insert p t"
| "apply_effect (Git_clone as) t = insert (last as) t"
| "apply_effect (Rename p q) t = insert q (t - {p})"
| "apply_effect (Rm p) t = {q \<in> t. q \<noteq> p \<and> \<not> starts_with q (p @ ''/'')}"

definition run_effects :: "effect list \<Rightarrow> string set \<Rightarrow> string set" where
  "run_effects es t = fold apply_effect es t"

definition unused :: "string \<Rightarrow> string set \<Rightarrow> bool" where
  "unused p t \<longleftrightarrow> p \<notin> t \<and> (\<forall>q. starts_with q (p @ ''/'') \<longrightarrow> q \<notin> t)"

lemma apply_Rm_unused: "unused p t \<Longrightarrow> apply_effect (Rm p) t = t"
  by (auto simp: unused_def)

lemma apply_Rm_insert: "unused p t \<Longrightarrow> apply_effect (Rm p) (insert p t) = t"
  by (auto simp: unused_def)

lemma clone_cases:
  assumes "cloneRepoInto h slug url = (es, r)" "workspacesDir h = Inr rootDir"
  obtains
    (refused) e where "r = Inl e" "es = []"
  | (no_git) "r = Inl SpawnFailed" "es = Mkdir rootDir # cleanup h (tmp_dir h rootDir slug)"
  | (failed) e where "r = Inl e"
      "es = [Mkdir rootDir, Git_clone [''clone'', ''--'', url, tmp_dir h rootDir slug]]
        @ cleanup h (tmp_dir h rootDir slug)"
  | (cloned) "r = Inr ()" "isValidSlug slug"
      "es = [Mkdir rootDir, Git_clone [''clone'', ''--'', url, tmp_dir h rootDir slug],
        Rename (tmp_dir h rootDir slug) (rootDir @ ''/'' @ slug)]"
  using assms
  by (auto simp: cloneRepoInto_def Let_def
      split: if_splits git_outcome.splits rename_outcome.splits)

lemma run_failed_clone:
  assumes "unused tmp (insert rootDir t)" "cleanup h tmp = [Rm tmp]"
  shows "run_effects (Mkdir rootDir # cleanup h tmp) t = insert rootDir t"
    and "run_effects ([Mkdir rootDir, Git_clone [''clone'', ''--'', url, tmp]] @ cleanup h tmp) t
      = insert rootDir t"
  using assms apply_Rm_unused[OF assms(1)] apply_Rm_insert[OF assms(1)]
  by (simp_all add: run_effects_def del: apply_effect.simps(4))

section \<open>Properties\<close>

text \<open>C26: the executable test of the slug expression accepts exactly the names of the form
  segment, two hyphens, segment, two hyphens, four hexadecimal digits; such a name has no
  slash and is neither of the dot directories, so it is one path component.\<close>

theorem isValidSlug_iff_grammar:
  "isValidSlug s = slug_grammar s
   \<and> (isValidSlug s \<longrightarrow> CHR ''/'' \<notin> set s \<and> s \<noteq> ''.'' \<and> s \<noteq> ''..'')"
  using isValidSlug_grammar slug_grammar_no_slash slug_grammar_not_dots by blast

theorem isValidSlug_iff_grammar_witness:
  "slug_grammar ''acme--widget--7a3f'' \<and> CHR ''/'' \<notin> set ''acme--widget--7a3f''"
proof -
  have v: "isValidSlug ''acme--widget--7a3f''" by code_simp
  show ?thesis using isValidSlug_iff_grammar[of "''acme--widget--7a3f''"] v by blast
qed

text \<open>Owner and repository of an SSH and of an HTTPS clone URL are read back, for
  names over the slug alphabet without a double hyphen.\<close>

theorem parseOwnerRepo_forms:
  assumes "repo_name owner" "repo_name repo" "host_name hs"
  shows "parseOwnerRepo (''git@'' @ hs @ '':'' @ owner @ ''/'' @ repo @ ''.git'') = Inr (owner, repo)
    \<and> parseOwnerRepo (''https://'' @ hs @ ''/'' @ owner @ ''/'' @ repo @ ''.git'') = Inr (owner, repo)"
proof -
  have ssh: "strip_git (''git@'' @ hs @ '':'' @ owner @ ''/'' @ repo @ ''.git'')
      = ''git@'' @ hs @ CHR '':'' # (owner @ CHR ''/'' # repo)"
    using strip_git_suffix[of "''git@'' @ hs @ '':'' @ owner @ ''/'' @ repo"] by simp
  have https: "strip_git (''https://'' @ hs @ ''/'' @ owner @ ''/'' @ repo @ ''.git'')
      = ''https://'' @ hs @ CHR ''/'' # (owner @ CHR ''/'' # repo)"
    using strip_git_suffix[of "''https://'' @ hs @ ''/'' @ owner @ ''/'' @ repo"] by simp
  have "parseOwnerRepo (''git@'' @ hs @ '':'' @ owner @ ''/'' @ repo @ ''.git'') = Inr (owner, repo)"
    by (rule parseOwnerRepo_path[OF url_segments_path])
       (simp_all only: ssh strip_scheme_ssh strip_user_host_ssh assms)
  moreover
  have "parseOwnerRepo (''https://'' @ hs @ ''/'' @ owner @ ''/'' @ repo @ ''.git'') = Inr (owner, repo)"
    by (rule parseOwnerRepo_path[OF url_segments_path])
       (simp_all only: https strip_scheme_https strip_user_host_path assms)
  ultimately show ?thesis by blast
qed

theorem parseOwnerRepo_forms_witness:
  "parseOwnerRepo ''git@github.com:acme/widget.git'' = Inr (''acme'', ''widget'')
   \<and> parseOwnerRepo ''https://github.com/acme/widget.git'' = Inr (''acme'', ''widget'')"
proof -
  have ok: "repo_name ''acme''" "repo_name ''widget''" "host_name ''github.com''"
    by code_simp+
  show ?thesis using parseOwnerRepo_forms[OF ok] by simp
qed

text \<open>C25: a workspace that \<open>configure\<close> returned passes every check of
  \<open>create\<close> and \<open>target\<close>: \<open>create\<close> goes straight to the clone into the
  minted slug.\<close>

theorem configure_then_create:
  assumes "configure h info = Inr info'" "hex4 (host_random2 h)"
    and "parseExtra info = Inr (url, sfx)"
  shows "create h info' = cloneRepoInto h (info_name info') url
    \<and> target h info' = workspaceDir h (info_name info')"
proof -
  obtain slug rootDir where slug: "buildWorkspaceSlug h info = Inr slug" "slug_grammar slug"
    "workspacesDir h = Inr rootDir"
    and info': "info' = info\<lparr>info_name := slug, info_directory := Some (rootDir @ ''/'' @ slug)\<rparr>"
    using configure_cases[OF assms(1)] by blast
  obtain owner repo x where parsed: "parseOwnerRepo url = Inr (owner, repo)"
    and x: "hex4 x" "slug = slug_prefix owner repo @ x"
    using buildWorkspaceSlug_cases[OF slug(1) assms(2)] assms(3) by auto
  have "parseOwnerRepo [] = Inl (CannotParse [])" by code_simp
  with parsed have "url \<noteq> []" by auto
  moreover have "expectedWorkspaceDir h info' = Inr (rootDir @ ''/'' @ slug)"
    using slug by (simp add: expectedWorkspaceDir_iff info')
  moreover have "assertSlugMatchesRepo slug url = Inr ()"
    using x by (auto simp: assertSlugMatchesRepo_iff[OF parsed])
  moreover have "parseExtra info' = Inr (url, sfx)" using assms(3) by (simp add: info')
  ultimately show ?thesis
    using slug(3) by (simp add: create_def target_def workspaceDir_def info')
qed

definition demo_host :: host where
  "demo_host = \<lparr>host_ws_env = Some ''/w'', host_realpath = Some, host_pid = ''7'',
     host_random2 = ''7a3f'', host_random4 = ''0badcafe'', host_mkdir_ok = True,
     host_git = Closed 0, host_rename_res = Renamed, host_rm_ok = True\<rparr>"

definition demo_info :: workspace_info where
  "demo_info = \<lparr>info_name = [], info_directory = None,
     info_extra = JObj [(''repoUrl'', JStr ''git@h:acme/widget.git'')]\<rparr>"

definition demo_workspace :: workspace_info where
  "demo_workspace = demo_info\<lparr>info_name := ''acme--widget--7a3f'',
     info_directory := Some ''/w/acme--widget--7a3f''\<rparr>"

theorem configure_then_create_witness:
  "create demo_host demo_workspace
     = cloneRepoInto demo_host ''acme--widget--7a3f'' ''git@h:acme/widget.git''
   \<and> target demo_host demo_workspace = Inr ''/w/acme--widget--7a3f''"
proof -
  have c: "configure demo_host demo_info = Inr demo_workspace" by code_simp
  have r: "hex4 (host_random2 demo_host)" by code_simp
  have e: "parseExtra demo_info = Inr (''git@h:acme/widget.git'', None)" by code_simp
  have n: "info_name demo_workspace = ''acme--widget--7a3f''" by code_simp
  have w: "workspaceDir demo_host ''acme--widget--7a3f'' = Inr ''/w/acme--widget--7a3f''"
    by code_simp
  show ?thesis using configure_then_create[OF c r e] n w by simp
qed

text \<open>C15: \<open>remove\<close> deletes nothing but the directory of the named workspace, a direct
  child of the workspaces root that resolves inside the resolved root; otherwise it has no
  effect at all.\<close>

theorem remove_confined:
  assumes "remove h info = (es, r)"
  shows "es = [] \<and> (\<exists>e. r = Inl e)
    \<or> (\<exists>rootDir. workspacesDir h = Inr rootDir \<and> es = [Rm (rootDir @ ''/'' @ info_name info)]
        \<and> r = Inr () \<and> CHR ''/'' \<notin> set (info_name info)
        \<and> info_name info \<noteq> ''.'' \<and> info_name info \<noteq> ''..''
        \<and> assertWithinWorkspaces h (rootDir @ ''/'' @ info_name info) = Inr ())"
proof (cases "expectedWorkspaceDir h info")
  case (Inl e)
  then show ?thesis using assms by (auto simp: remove_def)
next
  case (Inr dir)
  note dir = Inr[unfolded expectedWorkspaceDir_iff]
  show ?thesis
  proof (cases "assertWithinWorkspaces h dir")
    case (Inl e)
    with Inr assms have "es = [] \<and> r = Inl e" by (auto simp: remove_def)
    then show ?thesis by blast
  next
    case (Inr u)
    then show ?thesis
      using assms \<open>expectedWorkspaceDir h info = Inr dir\<close> dir
        slug_grammar_no_slash[of "info_name info"] slug_grammar_not_dots[of "info_name info"]
      by (auto simp: remove_def split: if_splits)
  qed
qed

theorem remove_confined_witness:
  "remove demo_host demo_workspace = ([Rm ''/w/acme--widget--7a3f''], Inr ())
   \<and> assertWithinWorkspaces demo_host ''/w/acme--widget--7a3f'' = Inr ()"
proof -
  have r: "remove demo_host demo_workspace = ([Rm ''/w/acme--widget--7a3f''], Inr ())"
    by code_simp
  have n: "info_name demo_workspace = ''acme--widget--7a3f''" "workspacesDir demo_host = Inr ''/w''"
    by code_simp+
  show ?thesis using remove_confined[OF r] r n by auto
qed

text \<open>C16: a clone is all or nothing.  If it succeeds the tree gains the workspace directory
  (and the root) and nothing else; if it fails and the clean-up went through, the tree
  gains at most the root, so no partial clone is left and the workspace does not exist.\<close>

theorem clone_all_or_nothing:
  assumes "cloneRepoInto h slug url = (es, r)" "workspacesDir h = Inr rootDir"
    and "unused (tmp_dir h rootDir slug) (insert rootDir t)"
    and "cleanup h (tmp_dir h rootDir slug) = [Rm (tmp_dir h rootDir slug)]"
  shows "case r of
      Inr _ \<Rightarrow> run_effects es t = insert (rootDir @ ''/'' @ slug) (insert rootDir t)
    | Inl _ \<Rightarrow> run_effects es t = t \<or> run_effects es t = insert rootDir t"
proof -
  have tmp: "tmp_dir h rootDir slug \<notin> t" "tmp_dir h rootDir slug \<noteq> rootDir"
    using assms(3) by (auto simp: unused_def)
  from assms(1,2) show ?thesis
    using run_failed_clone(1)[OF assms(3,4)] run_failed_clone(2)[OF assms(3,4), of url] tmp
    by (cases rule: clone_cases) (auto simp: run_effects_def)
qed

theorem clone_all_or_nothing_witness:
  "run_effects (fst (cloneRepoInto demo_host ''acme--widget--7a3f'' ''u'')) {''/w''}
     = {''/w/acme--widget--7a3f'', ''/w''}"
proof -
  let ?es = "fst (cloneRepoInto demo_host ''acme--widget--7a3f'' ''u'')"
  have ok: "cloneRepoInto demo_host ''acme--widget--7a3f'' ''u'' = (?es, Inr ())" by code_simp
  have w: "workspacesDir demo_host = Inr ''/w''" by code_simp
  have t: "tmp_dir demo_host ''/w'' ''acme--widget--7a3f''
    = ''/w/.kfactory-clone-acme--widget--7a3f-7-0badcafe''" by code_simp
  have u: "unused (tmp_dir demo_host ''/w'' ''acme--widget--7a3f'') (insert ''/w'' {''/w''})"
    unfolding t by (auto simp: unused_def starts_with_def)
  have c: "cleanup demo_host (tmp_dir demo_host ''/w'' ''acme--widget--7a3f'')
    = [Rm (tmp_dir demo_host ''/w'' ''acme--widget--7a3f'')]" by code_simp
  show ?thesis using clone_all_or_nothing[OF ok w u c] by simp
qed

text \<open>A slug determines owner, repository and suffix as long as repository names do not
  begin with a hyphen.\<close>

theorem slug_injective:
  assumes "slug_safe owner" "slug_safe owner'" "slug_safe repo" "slug_safe repo'"
    and "hd repo \<noteq> CHR ''-''" "hd repo' \<noteq> CHR ''-''" "hex4 x" "hex4 x'"
    and "slug_prefix owner repo @ x = slug_prefix owner' repo' @ x'"
  shows "owner = owner' \<and> repo = repo' \<and> x = x'"
proof -
  have "x = x' \<and> slug_prefix owner repo = slug_prefix owner' repo'"
    using assms(7-9) by (simp add: hex4_def)
  then have x: "x = x'" and eq: "owner @ (''--'' @ repo) = owner' @ (''--'' @ repo')"
    by (simp_all add: slug_prefix_def)
  have len: "t = []"
    if "o1 @ t = o2" "''--'' @ r1 = t @ ''--'' @ r2" "slug_safe o2" "hd r1 \<noteq> CHR ''-''" "r1 \<noteq> []"
    for o1 o2 t r1 r2
  proof -
    consider "t = []" | a where "t = [a]" | a b t2 where "t = a # b # t2"
      by (metis neq_Nil_conv)
    then show ?thesis
    proof cases
      case 3
      with that(2) have "t = ''--'' @ t2" by auto
      with that(1) have "o2 = o1 @ ''--'' @ t2" by simp
      with that(3) show ?thesis by (auto simp: slug_safe_def includes_iff)
    qed (use that in auto)
  qed
  from eq consider t where "owner' @ t = owner" "''--'' @ repo' = t @ (''--'' @ repo)"
    | t where "owner @ t = owner'" "''--'' @ repo = t @ (''--'' @ repo')"
    by (auto simp: append_eq_append_conv2)
  then have "owner = owner'"
    using len assms(1-6) by cases (metis append_Nil2 slug_safe_def)+
  with eq x show ?thesis by simp
qed

theorem slug_injective_witness:
  "slug_safe ''acme'' \<and> ''acme'' = ''acme'' \<and> ''widget'' = ''widget'' \<and> ''7a3f'' = ''7a3f''"
proof -
  have ok: "slug_safe ''acme''" "slug_safe ''widget''" "hd ''widget'' \<noteq> CHR ''-''" "hex4 ''7a3f''"
    by code_simp+
  show ?thesis
    using slug_injective[OF ok(1,1,2,2,3,3,4,4) refl] ok(1) by simp
qed

text \<open>Without that restriction the grammar is not injective: two different
  repositories that the adapter accepts share a slug, and the identity check of
  \<open>create\<close> passes for both.\<close>

theorem slug_collision:
  "parseOwnerRepo ''git@h:a-/b'' = Inr (''a-'', ''b'')
   \<and> parseOwnerRepo ''git@h:a/-b'' = Inr (''a'', ''-b'')
   \<and> assertSlugMatchesRepo ''a---b--7a3f'' ''git@h:a-/b'' = Inr ()
   \<and> assertSlugMatchesRepo ''a---b--7a3f'' ''git@h:a/-b'' = Inr ()"
  by code_simp

end
