(* ===== verification/Loop_State.thy ===== *)
theory Loop_State
  imports Js_Number Node_Path
begin

text \<open>
  \<open>plugins/loop/src/index.ts\<close>, first half: the durable loop state and the pure
  functions of the plugin.  The state file is a path of the file system \<open>fs\<close>; the
  content of a file is what \<open>JSON.parse(readFileSync(p))\<close> makes of it, a document or
  an exception.  Failures of file operations are arguments: \<open>unlink_ok\<close> for a deletion,
  \<open>write_fault\<close> for the three calls of a write.
\<close>

section \<open>Constants\<close>

definition DEFAULT_SENTINEL :: string where
  "DEFAULT_SENTINEL = ''<promise>EXHAUSTIVELY COMPLETED</promise>''"

definition DEFAULT_MAX_ITERATIONS :: int where "DEFAULT_MAX_ITERATIONS = 100"
definition MIN_MAX_ITERATIONS :: int where "MIN_MAX_ITERATIONS = 1"
definition MAX_MAX_ITERATIONS :: int where "MAX_MAX_ITERATIONS = 10000"
definition MAX_CONSECUTIVE_FAILURES :: int where "MAX_CONSECUTIVE_FAILURES = 3"
definition STATE_SCHEMA_VERSION :: int where "STATE_SCHEMA_VERSION = 2"

lemmas loop_constants =
  DEFAULT_SENTINEL_def DEFAULT_MAX_ITERATIONS_def MIN_MAX_ITERATIONS_def
  MAX_MAX_ITERATIONS_def MAX_CONSECUTIVE_FAILURES_def STATE_SCHEMA_VERSION_def

section \<open>State file location\<close>

text \<open>The process environment; \<open>sha256_hex\<close> is \<open>node:crypto\<close>.\<close>

record loop_env =
  xdg_state_home :: "string option"
  home_dir :: string
  sha256_hex :: "string \<Rightarrow> string"

definition stateRootDir :: "loop_env \<Rightarrow> string" where
  "stateRootDir env =
     (let base = (case xdg_state_home env of
          Some x \<Rightarrow> if x \<noteq> [] then x else path_join [home_dir env, ''.local'', ''state'']
        | None \<Rightarrow> path_join [home_dir env, ''.local'', ''state''])
      in path_join [base, ''kfactory-loop''])"

definition workspaceKey :: "loop_env \<Rightarrow> string \<Rightarrow> string" where
  "workspaceKey env dir = take 16 (sha256_hex env dir)"

definition stateFile :: "loop_env \<Rightarrow> string \<Rightarrow> string" where
  "stateFile env dir = path_join [stateRootDir env, workspaceKey env dir @ ''.json'']"

section \<open>State schema\<close>

record loop_state =
  schemaVersion :: int
  runID :: string
  iteration :: int
  maxIterations :: int
  sentinel :: string
  sessionID :: string
  task :: string
  consecutiveFailures :: int

definition validSentinel :: "jsval \<Rightarrow> bool" where
  "validSentinel v =
     (case v of
        JStr s \<Rightarrow> trim s \<noteq> [] \<and> s = trim s \<and> LF \<notin> set s \<and> CR \<notin> set s
      | _ \<Rightarrow> False)"

datatype state_error =
    Not_json
  | Not_object
  | Unknown_field string
  | Bad_version
  | Bad_run_id
  | Bad_iteration
  | Bad_max_iterations
  | Bad_sentinel
  | Bad_session_id
  | Bad_task
  | Bad_consecutive_failures

definition allowed_fields :: "string list" where
  "allowed_fields = [''schemaVersion'', ''runID'', ''iteration'', ''maxIterations'',
     ''sentinel'', ''sessionID'', ''task'', ''consecutiveFailures'']"

fun integer_in :: "jsval \<Rightarrow> int \<Rightarrow> int option \<Rightarrow> bool" where
  "integer_in (JNum n) lo hi =
     (num_is_integer n \<and> lo \<le> num_int n \<and> (case hi of None \<Rightarrow> True | Some b \<Rightarrow> num_int n \<le> b))"
| "integer_in _ lo hi = False"

fun the_int :: "jsval \<Rightarrow> int" where
  "the_int (JNum n) = num_int n"
| "the_int _ = 0"

fun the_str :: "jsval \<Rightarrow> string" where
  "the_str (JStr s) = s"
| "the_str _ = []"

definition non_blank_string :: "jsval \<Rightarrow> bool" where
  "non_blank_string v = (case v of JStr s \<Rightarrow> trim s \<noteq> [] | _ \<Rightarrow> False)"

text \<open>The checks of \<open>readState\<close> on a parsed document, in their order.\<close>

definition decode_state :: "jsval \<Rightarrow> state_error + loop_state" where
  "decode_state parsed =
     (case parsed of
        JObj obj \<Rightarrow>
          (case find (\<lambda>k. k \<notin> set allowed_fields) (map fst obj) of
             Some k \<Rightarrow> Inl (Unknown_field k)
           | None \<Rightarrow>
               let get = obj_get obj
               in if get ''schemaVersion'' \<noteq> JNum (int_num STATE_SCHEMA_VERSION) then Inl Bad_version
                  else if \<not> non_empty_string (get ''runID'') then Inl Bad_run_id
                  else if \<not> integer_in (get ''iteration'') 0 None then Inl Bad_iteration
                  else if \<not> integer_in (get ''maxIterations'') MIN_MAX_ITERATIONS (Some MAX_MAX_ITERATIONS)
                    then Inl Bad_max_iterations
                  else if \<not> validSentinel (get ''sentinel'') then Inl Bad_sentinel
                  else if \<not> non_empty_string (get ''sessionID'') then Inl Bad_session_id
                  else if \<not> non_blank_string (get ''task'') then Inl Bad_task
                  else if \<not> integer_in (get ''consecutiveFailures'') 0 None
                    then Inl Bad_consecutive_failures
                  else Inr \<lparr>schemaVersion = STATE_SCHEMA_VERSION, runID = the_str (get ''runID''),
                    iteration = the_int (get ''iteration''),
                    maxIterations = the_int (get ''maxIterations''),
                    sentinel = the_str (get ''sentinel''), sessionID = the_str (get ''sessionID''),
                    task = the_str (get ''task''),
                    consecutiveFailures = the_int (get ''consecutiveFailures'')\<rparr>)
      | _ \<Rightarrow> Inl Not_object)"

text \<open>\<open>JSON.stringify(s, null, 2)\<close>, as the document it parses back to.\<close>

definition encode_state :: "loop_state \<Rightarrow> jsval" where
  "encode_state s = JObj
     [(''schemaVersion'', JNum (int_num (schemaVersion s))), (''runID'', JStr (runID s)),
      (''iteration'', JNum (int_num (iteration s))),
      (''maxIterations'', JNum (int_num (maxIterations s))), (''sentinel'', JStr (sentinel s)),
      (''sessionID'', JStr (sessionID s)), (''task'', JStr (task s)),
      (''consecutiveFailures'', JNum (int_num (consecutiveFailures s)))]"

section \<open>Reading, writing and clearing the state file\<close>

datatype content = Unparsable | Doc jsval

type_synonym fs = "string \<rightharpoonup> content"

text \<open>\<open>existsSync\<close> and \<open>unlinkSync\<close>; \<open>invalid\<close> deletes the file and only logs a
  failure to do so.\<close>

definition unlink :: "bool \<Rightarrow> string \<Rightarrow> fs \<Rightarrow> fs" where
  "unlink unlink_ok p f = (if unlink_ok then f(p := None) else f)"

definition readState :: "bool \<Rightarrow> string \<Rightarrow> fs \<Rightarrow> loop_state option \<times> fs" where
  "readState unlink_ok p f =
     (case f p of
        None \<Rightarrow> (None, f)
      | Some Unparsable \<Rightarrow> (None, unlink unlink_ok p f)
      | Some (Doc v) \<Rightarrow>
          (case decode_state v of
             Inl _ \<Rightarrow> (None, unlink unlink_ok p f)
           | Inr s \<Rightarrow> (Some s, f)))"

text \<open>Which call of a write throws: \<open>mkdirSync\<close>, \<open>writeFileSync\<close> (which leaves
  something in the temporary file) or \<open>renameSync\<close>.\<close>

datatype 'c write_fault = Write_ok | Mkdir_fails | Write_fails 'c | Rename_fails

definition tmp_file :: "string \<Rightarrow> string" where
  "tmp_file p = p @ ''.tmp''"

definition writeStateTo :: "content write_fault \<Rightarrow> string \<Rightarrow> loop_state \<Rightarrow> fs \<Rightarrow> bool \<times> fs" where
  "writeStateTo w p s f =
     (case w of
        Mkdir_fails \<Rightarrow> (False, f)
      | Write_fails c \<Rightarrow> (False, f(tmp_file p \<mapsto> c))
      | Rename_fails \<Rightarrow> (False, f(tmp_file p \<mapsto> Doc (encode_state s)))
      | Write_ok \<Rightarrow> (True, (f(tmp_file p := None))(p \<mapsto> Doc (encode_state s))))"

text \<open>\<open>clearState\<close> throws when the deletion fails (result \<open>False\<close>);
  \<open>tryClearState\<close> swallows that.\<close>

definition clearState :: "bool \<Rightarrow> string \<Rightarrow> fs \<Rightarrow> bool \<times> fs" where
  "clearState unlink_ok p f = (if f p = None then (True, f) else (unlink_ok, unlink unlink_ok p f))"

definition tryClearState :: "bool \<Rightarrow> string \<Rightarrow> fs \<Rightarrow> fs" where
  "tryClearState unlink_ok p f = snd (clearState unlink_ok p f)"

section \<open>Session kinds\<close>

datatype session_kind = Root | Subagent | Missing | Unknown

definition NUM_404 :: jsval where
  "NUM_404 = JNum (int_num 404)"

definition isNotFoundError :: "jsval \<Rightarrow> bool" where
  "isNotFoundError err =
     (if \<not> is_record err then False
      else if nullish (opt_get err ''status'') (opt_get err ''statusCode'') = NUM_404 then True
      else if opt_get (opt_get err ''response'') ''status'' = NUM_404 then True
      else opt_get (opt_get err ''error'') ''status'' = NUM_404
        \<or> opt_get (opt_get err ''error'') ''statusCode'' = NUM_404)"

definition sessionKind :: "reply \<Rightarrow> session_kind" where
  "sessionKind r =
     (case r of
        Returned d \<Rightarrow> if truthy (opt_get d ''parentID'') then Subagent else Root
      | Thrown err \<Rightarrow> if isNotFoundError err then Missing else Unknown)"

section \<open>Completion detection\<close>

text \<open>The rows of \<open>session.messages\<close>, typed by the SDK; a row may be absent.\<close>

datatype part = Text_part string | Other_part

record message_row =
  row_role :: string
  row_parts :: "part list"

fun part_text :: "part \<Rightarrow> string option" where
  "part_text (Text_part t) = Some t"
| "part_text Other_part = None"

text \<open>The loop from the last row to the first (the list is reversed).\<close>

fun last_assistant :: "message_row option list \<Rightarrow> string option" where
  "last_assistant [] = None"
| "last_assistant (row # rows) =
     (case row of
        None \<Rightarrow> last_assistant rows
      | Some r \<Rightarrow>
          if row_role r \<noteq> ''assistant'' then last_assistant rows
          else Some (join_with [LF] (List.map_filter part_text (row_parts r))))"

definition lastAssistantText :: "message_row option list option \<Rightarrow> string option" where
  "lastAssistantText respData =
     last_assistant (rev (case respData of None \<Rightarrow> [] | Some rows \<Rightarrow> rows))"

text \<open>The loop from the last line to the first (the list is reversed).\<close>

fun last_line_is :: "string list \<Rightarrow> string \<Rightarrow> bool" where
  "last_line_is [] s = False"
| "last_line_is (l # ls) s = (let t = trim l in if t = [] then last_line_is ls s else t = s)"

definition matchesSentinel :: "string \<Rightarrow> string \<Rightarrow> bool" where
  "matchesSentinel text s = last_line_is (rev (split_lines text)) s"

section \<open>Continuation prompt\<close>

text \<open>An integer in a template: below \<open>2 ^ 53\<close> in plain decimal notation, which is what
  \<open>Number::toString\<close> gives.\<close>

definition number_text :: "int \<Rightarrow> string" where
  "number_text i = (if \<bar>i\<bar> < 2 ^ 53 then show_int i else show_number (int_num i))"

lemma number_text_number: "number_text i = show_number (int_num i)"
  by (simp add: number_text_def show_small_int)

definition buildContinuation :: "loop_state \<Rightarrow> int \<Rightarrow> string" where
  "buildContinuation s nextIteration = join_with [LF]
     [''[loop iteration '' @ number_text nextIteration @ ''/'' @ number_text (maxIterations s) @ '']'',
      [],
      ''Your last turn did not contain the completion sentinel. Continue'',
      ''working on the task. When fully done, emit the sentinel as the very'',
      ''LAST line of your response (it must be the final non-empty line,'',
      ''trimmed, and match exactly):'',
      [],
      ''    '' @ sentinel s,
      [],
      ''If the sentinel appears anywhere ELSE in your output (a plan, a'',
      ''restatement, a tool result), the loop will NOT terminate -- only'',
      ''the trailing line is checked.'',
      [],
      ''Original task:'',
      task s]"

end
