(* ===== verification/Loop_Plugin.thy ===== *)
theory Loop_Plugin
  imports Loop_State
begin

text \<open>
  \<open>plugins/loop/src/index.ts\<close>, second half: the plugin itself.  A handler runs without
  interruption up to its next \<open>await\<close>; the state between two such points is a task with
  a program counter.  Events, tool calls, replies of the client and the continuations of
  finished handlers interleave in any order, each one an \<open>action\<close>.

  Besides the state file and the \<open>inFlight\<close> map, the world holds two ghost fields:
  the run identifiers handed out so far and the sessions announced as deleted.
\<close>

section \<open>The world\<close>

text \<open>Where a call of \<open>handleIdle\<close> is suspended: in \<open>sessionKind\<close>, in
  \<open>lastAssistantText\<close>, in \<open>session.prompt\<close>, or finished (normally or by an
  exception) with the caller not yet resumed.\<close>

datatype pc =
    Await_kind loop_state
  | Await_messages loop_state
  | Await_prompt loop_state int
  | Finished
  | Threw

record idle_task =
  t_session :: string
  t_rerun :: bool
  t_pending :: bool
  t_pc :: pc

text \<open>A \<open>loop-start\<close> call suspended in \<open>sessionKind\<close>, after its argument and
  activity checks.\<close>

record start_task =
  st_task :: string
  st_sentinel :: string
  st_max :: int
  st_session :: string

record prompt_call =
  p_session :: string
  p_run :: string
  p_label :: int
  p_max :: int
  p_text :: string

record world =
  state_path :: string
  disk :: fs
  in_flight :: "string \<rightharpoonup> nat"
  idle_tasks :: "nat \<rightharpoonup> idle_task"
  start_tasks :: "nat \<rightharpoonup> start_task"
  status_tasks :: "nat \<rightharpoonup> string"
  next_id :: nat
  prompts :: "prompt_call list"
  used_runs :: "string set"
  deleted_sessions :: "string set"

text \<open>How the file operations of one uninterrupted segment go.\<close>

record faults =
  unlink_ok :: bool
  write_res :: "content write_fault"

definition no_faults :: faults where
  "no_faults = \<lparr>unlink_ok = True, write_res = Write_ok\<rparr>"

definition read_world :: "faults \<Rightarrow> world \<Rightarrow> loop_state option \<times> world" where
  "read_world fl w =
     (let (s, f) = readState (unlink_ok fl) (state_path w) (disk w) in (s, w\<lparr>disk := f\<rparr>))"

definition clear_world :: "faults \<Rightarrow> world \<Rightarrow> world" where
  "clear_world fl w = w\<lparr>disk := tryClearState (unlink_ok fl) (state_path w) (disk w)\<rparr>"

definition write_world :: "faults \<Rightarrow> loop_state \<Rightarrow> world \<Rightarrow> bool \<times> world" where
  "write_world fl s w =
     (let (ok, f) = writeStateTo (write_res fl) (state_path w) s (disk w) in (ok, w\<lparr>disk := f\<rparr>))"

section \<open>handleIdle\<close>

definition stateStillOurs :: "faults \<Rightarrow> loop_state \<Rightarrow> world \<Rightarrow> bool \<times> world" where
  "stateStillOurs fl original w =
     (let (current, w') = read_world fl w
      in ((case current of
             None \<Rightarrow> False
           | Some c \<Rightarrow> sessionID c = sessionID original \<and> runID c = runID original), w'))"

text \<open>From the call to the first \<open>await\<close>.\<close>

definition handleIdle_begin :: "faults \<Rightarrow> string \<Rightarrow> world \<Rightarrow> pc \<times> world" where
  "handleIdle_begin fl sid w =
     (let (s, w') = read_world fl w
      in case s of
           None \<Rightarrow> (Finished, w')
         | Some st \<Rightarrow> if sessionID st \<noteq> sid then (Finished, w') else (Await_kind st, w'))"

definition onFailure :: "faults \<Rightarrow> loop_state \<Rightarrow> world \<Rightarrow> pc \<times> world" where
  "onFailure fl s w =
     (let failures = consecutiveFailures s + 1
      in if failures \<ge> MAX_CONSECUTIVE_FAILURES then (Finished, clear_world fl w)
         else let (ours, w1) = stateStillOurs fl s w
              in if \<not> ours then (Finished, w1)
                 else let (ok, w2) = write_world fl (s\<lparr>consecutiveFailures := failures\<rparr>) w1
                      in (if ok then Finished else Threw, w2))"

definition handleIdle_kind :: "faults \<Rightarrow> loop_state \<Rightarrow> reply \<Rightarrow> world \<Rightarrow> pc \<times> world" where
  "handleIdle_kind fl s r w =
     (case sessionKind r of
        Missing \<Rightarrow> (Finished, clear_world fl w)
      | Root \<Rightarrow> (Await_messages s, w)
      | _ \<Rightarrow> (Finished, w))"

text \<open>The reply of \<open>session.messages\<close>: the rows, or a failure.\<close>

datatype messages_reply = Rows "message_row option list option" | Messages_failed

definition prompt_of :: "loop_state \<Rightarrow> int \<Rightarrow> prompt_call" where
  "prompt_of s n = \<lparr>p_session = sessionID s, p_run = runID s, p_label = n,
     p_max = maxIterations s, p_text = buildContinuation s n\<rparr>"

definition handleIdle_messages ::
  "faults \<Rightarrow> loop_state \<Rightarrow> messages_reply \<Rightarrow> world \<Rightarrow> pc \<times> world" where
  "handleIdle_messages fl s r w =
     (case r of
        Messages_failed \<Rightarrow> onFailure fl s w
      | Rows rows \<Rightarrow>
          (case lastAssistantText rows of
             None \<Rightarrow> (Finished, w)
           | Some text \<Rightarrow>
               if matchesSentinel text (sentinel s) then (Finished, clear_world fl w)
               else if iteration s \<ge> maxIterations s then (Finished, clear_world fl w)
               else
                 let n = iteration s + 1; (ours, w1) = stateStillOurs fl s w
                 in if \<not> ours then (Finished, w1)
                    else
                      let (ok, w2) = write_world fl (s\<lparr>iteration := n, consecutiveFailures := 0\<rparr>) w1
                      in if \<not> ok then (Threw, w2)
                         else (Await_prompt s n, w2\<lparr>prompts := prompts w2 @ [prompt_of s n]\<rparr>)))"

definition handleIdle_prompt :: "faults \<Rightarrow> loop_state \<Rightarrow> int \<Rightarrow> bool \<Rightarrow> world \<Rightarrow> pc \<times> world" where
  "handleIdle_prompt fl s n ok w =
     (if ok then (Finished, w) else onFailure fl (s\<lparr>iteration := n\<rparr>) w)"

section \<open>processIdle\<close>

definition set_task :: "nat \<Rightarrow> idle_task \<Rightarrow> world \<Rightarrow> world" where
  "set_task tid t w = w\<lparr>idle_tasks := (idle_tasks w)(tid \<mapsto> t)\<rparr>"

definition set_pending :: "nat \<Rightarrow> world \<Rightarrow> world" where
  "set_pending tid w =
     w\<lparr>idle_tasks := (idle_tasks w)(tid := map_option (t_pending_update (\<lambda>_. True)) (idle_tasks w tid))\<rparr>"

definition processIdle :: "faults \<Rightarrow> string \<Rightarrow> world \<Rightarrow> world" where
  "processIdle fl sid w =
     (case in_flight w sid of
        Some tid \<Rightarrow> set_pending tid w
      | None \<Rightarrow>
          let tid = next_id w;
              w1 = w\<lparr>in_flight := (in_flight w)(sid \<mapsto> tid), next_id := Suc tid\<rparr>;
              (c, w2) = handleIdle_begin fl sid w1
          in set_task tid \<lparr>t_session = sid, t_rerun = False, t_pending = False, t_pc = c\<rparr> w2)"

text \<open>The continuation of \<open>processIdle\<close> after \<open>handleIdle\<close>: at most one re-run if
  another idle arrived meanwhile, else (and after an exception) the \<open>finally\<close> block.\<close>

definition finish_task :: "nat \<Rightarrow> idle_task \<Rightarrow> world \<Rightarrow> world" where
  "finish_task tid t w =
     w\<lparr>in_flight := (in_flight w)(t_session t := None),
       idle_tasks := (idle_tasks w)(tid := None)\<rparr>"

definition continue_task :: "faults \<Rightarrow> nat \<Rightarrow> idle_task \<Rightarrow> world \<Rightarrow> world" where
  "continue_task fl tid t w =
     (if t_pc t = Finished \<and> \<not> t_rerun t \<and> t_pending t
      then let (c, w1) = handleIdle_begin fl (t_session t) w
           in set_task tid (t\<lparr>t_rerun := True, t_pending := False, t_pc := c\<rparr>) w1
      else finish_task tid t w)"

section \<open>Tools\<close>

record start_args =
  a_task :: string
  a_sentinel :: "string option"
  a_max :: "jsnum option"

text \<open>The arguments that the schema of \<open>loop-start\<close> admits: a task and a sentinel of at
  least one character, an integer within the limits; sentinel and limit may be absent.\<close>

fun text_arg :: "jsval \<Rightarrow> string option" where
  "text_arg (JStr s) = (if s \<noteq> [] then Some s else None)"
| "text_arg _ = None"

fun limit_arg :: "jsval \<Rightarrow> jsnum option" where
  "limit_arg (JNum n) =
     (if integer_in (JNum n) MIN_MAX_ITERATIONS (Some MAX_MAX_ITERATIONS) then Some n else None)"
| "limit_arg _ = None"

definition optional_arg :: "(jsval \<Rightarrow> 'a option) \<Rightarrow> jsval \<Rightarrow> 'a option option" where
  "optional_arg arg v = (if v = JUndef then Some None else map_option Some (arg v))"

definition loop_start_args :: "jsval \<Rightarrow> start_args option" where
  "loop_start_args v =
     (case (text_arg (opt_get v ''task''), optional_arg text_arg (opt_get v ''sentinel''),
         optional_arg limit_arg (opt_get v ''maxIterations'')) of
        (Some t, Some snt, Some mx) \<Rightarrow> Some \<lparr>a_task = t, a_sentinel = snt, a_max = mx\<rparr>
      | _ \<Rightarrow> None)"

text \<open>The defaults that the schema fills in.\<close>

definition with_defaults :: "start_args \<Rightarrow> start_args" where
  "with_defaults a = a\<lparr>
     a_sentinel := Some (case a_sentinel a of Some s \<Rightarrow> s | None \<Rightarrow> DEFAULT_SENTINEL),
     a_max := Some (case a_max a of Some m \<Rightarrow> m | None \<Rightarrow> int_num DEFAULT_MAX_ITERATIONS)\<rparr>"

datatype start_result =
    Refused_task
  | Refused_sentinel
  | Refused_max jsnum
  | Refused_active loop_state bool
  | Refused_child
  | Refused_missing
  | Refused_unverified
  | Started loop_state
  | Start_threw

datatype 'a started = Answer start_result | Suspended 'a

text \<open>From the call of \<open>loop-start\<close> to the \<open>await\<close> in \<open>sessionKind\<close>.\<close>

definition loop_start_begin ::
  "faults \<Rightarrow> start_args \<Rightarrow> string \<Rightarrow> world \<Rightarrow> start_task started \<times> world" where
  "loop_start_begin fl args sid w =
     (let snt = (case a_sentinel args of Some s \<Rightarrow> s | None \<Rightarrow> DEFAULT_SENTINEL);
          mx = (case a_max args of Some m \<Rightarrow> m | None \<Rightarrow> int_num DEFAULT_MAX_ITERATIONS)
      in if trim (a_task args) = [] then (Answer Refused_task, w)
         else if \<not> validSentinel (JStr snt) then (Answer Refused_sentinel, w)
         else if \<not> integer_in (JNum mx) MIN_MAX_ITERATIONS (Some MAX_MAX_ITERATIONS)
           then (Answer (Refused_max mx), w)
         else let (existing, w1) = read_world fl w
              in case existing of
                   Some e \<Rightarrow> (Answer (Refused_active e (sessionID e = sid)), w1)
                 | None \<Rightarrow> (Suspended \<lparr>st_task = a_task args, st_sentinel = snt,
                      st_max = num_int mx, st_session = sid\<rparr>, w1))"

definition new_state :: "start_task \<Rightarrow> string \<Rightarrow> loop_state" where
  "new_state st uuid = \<lparr>schemaVersion = STATE_SCHEMA_VERSION, runID = uuid, iteration = 0,
     maxIterations = st_max st, sentinel = st_sentinel st, sessionID = st_session st,
     task = st_task st, consecutiveFailures = 0\<rparr>"

definition loop_start_resume ::
  "faults \<Rightarrow> start_task \<Rightarrow> reply \<Rightarrow> string \<Rightarrow> world \<Rightarrow> start_result \<times> world" where
  "loop_start_resume fl st r uuid w =
     (case sessionKind r of
        Subagent \<Rightarrow> (Refused_child, w)
      | Missing \<Rightarrow> (Refused_missing, w)
      | Unknown \<Rightarrow> (Refused_unverified, w)
      | Root \<Rightarrow>
          let (ok, w1) = write_world fl (new_state st uuid) w
          in (if ok then Started (new_state st uuid) else Start_threw,
              w1\<lparr>used_runs := insert uuid (used_runs w1)\<rparr>))"

datatype stop_result = No_active_loop | Cancelled int | Stop_threw

text \<open>The texts the tools answer with; \<open>None\<close> is an exception.\<close>

definition started_text :: "loop_state \<Rightarrow> string" where
  "started_text s = join_with [LF]
     [''loop-start: active (max '' @ number_text (maxIterations s) @ '' iterations, session ''
        @ sessionID s @ '').'',
      ''sentinel: '' @ sentinel s,
      ''task: '' @ task s,
      [],
      ''Emit the sentinel as the LAST line of your response when the'',
      ''task is fully complete. The matcher checks the trailing'',
      ''non-empty line only -- mentioning the sentinel mid-response'',
      ''(planning, paraphrasing, restating the prompt) does NOT'',
      ''terminate the loop. Operator can interrupt with /loop-stop.'']"

fun start_text :: "string \<Rightarrow> start_result \<Rightarrow> string option" where
  "start_text sid Refused_task =
     Some ''loop-start: refusing empty task. Provide a non-empty task string.''"
| "start_text sid Refused_sentinel =
     Some (''loop-start: refusing invalid sentinel. Provide a non-empty single-line completion ''
       @ ''string with no leading or trailing whitespace.'')"
| "start_text sid (Refused_max n) =
     Some (''loop-start: maxIterations must be an integer in ['' @ show_int MIN_MAX_ITERATIONS
       @ '', '' @ show_int MAX_MAX_ITERATIONS @ ''], got '' @ show_number n)"
| "start_text sid (Refused_active e same) =
     Some (''loop-start: refused -- a loop is already active in this workspace ''
       @ ''for session '' @ sessionID e @ '' (iteration '' @ number_text (iteration e) @ ''/''
       @ number_text (maxIterations e) @ ''). ''
       @ ''Run /loop-stop'' @ (if same then [] else '' in that session'')
       @ '' first, then re-run /loop-start.'')"
| "start_text sid Refused_child =
     Some (''loop-start: refused -- session '' @ sid
       @ '' is a child/subagent session. Start the loop from the parent operator session.'')"
| "start_text sid Refused_missing =
     Some (''loop-start: refused -- session '' @ sid @ '' does not exist.'')"
| "start_text sid Refused_unverified =
     Some (''loop-start: refused -- could not verify session '' @ sid
       @ '' is a root operator session.'')"
| "start_text sid (Started s) = Some (started_text s)"
| "start_text sid Start_threw = None"

fun stop_text :: "stop_result \<Rightarrow> string option" where
  "stop_text No_active_loop = Some ''loop-stop: no active loop.''"
| "stop_text (Cancelled n) = Some (''loop-stop: cancelled after '' @ number_text n @ '' iteration(s).'')"
| "stop_text Stop_threw = None"

definition loop_stop :: "faults \<Rightarrow> world \<Rightarrow> stop_result \<times> world" where
  "loop_stop fl w =
     (let (s, w1) = read_world fl w
      in case s of
           None \<Rightarrow> (No_active_loop, w1)
         | Some st \<Rightarrow>
             let (ok, f) = clearState (unlink_ok fl) (state_path w1) (disk w1)
             in (if ok then Cancelled (iteration st) else Stop_threw, w1\<lparr>disk := f\<rparr>))"

section \<open>Events\<close>

datatype loop_event = Deleted string | Idle string | Ignored

text \<open>The decoding at the start of the \<open>event\<close> hook.\<close>

definition decode_loop_event :: "string \<Rightarrow> jsval \<Rightarrow> loop_event" where
  "decode_loop_event type props =
     (if type = ''session.deleted'' then
        (case opt_get props ''sessionID'' of JStr sid \<Rightarrow> Deleted sid | _ \<Rightarrow> Ignored)
      else if type = ''session.idle'' then Ignored
      else if type \<noteq> ''session.status'' then Ignored
      else if \<not> is_record props then Ignored
      else if opt_get (opt_get props ''status'') ''type'' \<noteq> JStr ''idle'' then Ignored
      else (case opt_get props ''sessionID'' of
          JStr sid \<Rightarrow> if sid = [] then Ignored else Idle sid
        | _ \<Rightarrow> Ignored))"

definition session_deleted :: "faults \<Rightarrow> string \<Rightarrow> world \<Rightarrow> world" where
  "session_deleted fl sid w =
     (let (s, w1) = read_world fl w;
          w2 = (case s of
                  Some st \<Rightarrow> if sessionID st = sid then clear_world fl w1 else w1
                | None \<Rightarrow> w1)
      in w2\<lparr>in_flight := (in_flight w2)(sid := None),
            deleted_sessions := insert sid (deleted_sessions w2)\<rparr>)"

definition handle_event :: "faults \<Rightarrow> string \<Rightarrow> jsval \<Rightarrow> world \<Rightarrow> world" where
  "handle_event fl type props w =
     (case decode_loop_event type props of
        Deleted sid \<Rightarrow> session_deleted fl sid w
      | Idle sid \<Rightarrow> processIdle fl sid w
      | Ignored \<Rightarrow> w)"

text \<open>\<open>processCurrentStatus\<close> at plugin start: read the state, ask for the session's
  status, and treat a missing or idle status as an idle event.\<close>

datatype status_reply = Unavailable | Status jsval | Status_failed

definition current_status_begin :: "faults \<Rightarrow> world \<Rightarrow> world" where
  "current_status_begin fl w =
     (let (s, w1) = read_world fl w
      in case s of
           None \<Rightarrow> w1
         | Some st \<Rightarrow> w1\<lparr>status_tasks := (status_tasks w1)(next_id w1 \<mapsto> sessionID st),
             next_id := Suc (next_id w1)\<rparr>)"

definition current_status_resume ::
  "faults \<Rightarrow> nat \<Rightarrow> string \<Rightarrow> status_reply \<Rightarrow> world \<Rightarrow> world" where
  "current_status_resume fl tid sid r w =
     (let w1 = w\<lparr>status_tasks := (status_tasks w)(tid := None)\<rparr>
      in case r of
           Unavailable \<Rightarrow> w1
         | Status_failed \<Rightarrow> w1
         | Status d \<Rightarrow>
             (let status = opt_get d sid
              in if status = JUndef then processIdle fl sid w1
                 else if \<not> is_record status then w1
                 else if opt_get status ''type'' = JStr ''idle'' then processIdle fl sid w1
                 else w1))"

section \<open>The transition relation\<close>

datatype action =
    Event string jsval
  | Kind_reply nat reply
  | Messages_reply nat messages_reply
  | Prompt_reply nat bool
  | Continue nat
  | Start start_args string
  | Start_reply nat reply string
  | Stop
  | Init_status
  | Status_reply nat status_reply
  | Restart

text \<open>A restart of the process loses everything but the disk (and the ghost fields).\<close>

definition restart :: "world \<Rightarrow> world" where
  "restart w = w\<lparr>in_flight := Map.empty, idle_tasks := Map.empty, start_tasks := Map.empty,
     status_tasks := Map.empty\<rparr>"

definition step_task ::
  "nat \<Rightarrow> idle_task \<Rightarrow> (world \<Rightarrow> pc \<times> world) \<Rightarrow> world \<Rightarrow> world" where
  "step_task tid t h w = (let (c, w1) = h w in set_task tid (t\<lparr>t_pc := c\<rparr>) w1)"

inductive loop_step :: "world \<Rightarrow> action \<times> faults \<Rightarrow> world \<Rightarrow> bool" where
  event: "loop_step w (Event type props, fl) (handle_event fl type props w)"
| kind: "idle_tasks w tid = Some t \<Longrightarrow> t_pc t = Await_kind s \<Longrightarrow>
    loop_step w (Kind_reply tid r, fl) (step_task tid t (handleIdle_kind fl s r) w)"
| messages: "idle_tasks w tid = Some t \<Longrightarrow> t_pc t = Await_messages s \<Longrightarrow>
    loop_step w (Messages_reply tid m, fl) (step_task tid t (handleIdle_messages fl s m) w)"
| prompt: "idle_tasks w tid = Some t \<Longrightarrow> t_pc t = Await_prompt s n \<Longrightarrow>
    loop_step w (Prompt_reply tid ok, fl) (step_task tid t (handleIdle_prompt fl s n ok) w)"
| continue: "idle_tasks w tid = Some t \<Longrightarrow> t_pc t = Finished \<or> t_pc t = Threw \<Longrightarrow>
    loop_step w (Continue tid, fl) (continue_task fl tid t w)"
| start_answer: "loop_start_begin fl args sid w = (Answer a, w') \<Longrightarrow>
    loop_step w (Start args sid, fl) w'"
| start_suspend: "loop_start_begin fl args sid w = (Suspended st, w') \<Longrightarrow>
    loop_step w (Start args sid, fl)
      (w'\<lparr>start_tasks := (start_tasks w')(next_id w' \<mapsto> st), next_id := Suc (next_id w')\<rparr>)"
| start_reply: "start_tasks w tid = Some st \<Longrightarrow> uuid \<notin> used_runs w \<Longrightarrow> uuid \<noteq> [] \<Longrightarrow>
    loop_step w (Start_reply tid r uuid, fl)
      (snd (loop_start_resume fl st r uuid (w\<lparr>start_tasks := (start_tasks w)(tid := None)\<rparr>)))"
| stop: "loop_step w (Stop, fl) (snd (loop_stop fl w))"
| init_status: "loop_step w (Init_status, fl) (current_status_begin fl w)"
| status_reply: "status_tasks w tid = Some sid \<Longrightarrow>
    loop_step w (Status_reply tid r, fl) (current_status_resume fl tid sid r w)"
| restart: "loop_step w (Restart, fl) (restart w)"

text \<open>The initial world: an arbitrary path, no state file, nothing running.\<close>

definition init_world :: "string \<Rightarrow> world" where
  "init_world p = \<lparr>state_path = p, disk = Map.empty, in_flight = Map.empty,
     idle_tasks = Map.empty, start_tasks = Map.empty, status_tasks = Map.empty, next_id = 0,
     prompts = [], used_runs = {}, deleted_sessions = {}\<rparr>"

end
