(* ===== verification/Loop_Store.thy ===== *)
theory Loop_Store
  imports Loop_Plugin
begin

text \<open>
  The state file as a durable store: the interface (what a load sees after a save, an erase,
  or a failed one), the round trip of the schema that discharges it, and the view
  \<open>live\<close> of a world: the loop that \<open>readState\<close> would return.
\<close>

section \<open>The interface\<close>

locale durable_store =
  fixes load :: "'f \<Rightarrow> 's option"
    and save :: "'w \<Rightarrow> 's \<Rightarrow> 'f \<Rightarrow> bool \<times> 'f"
    and erase :: "bool \<Rightarrow> 'f \<Rightarrow> bool \<times> 'f"
    and valid :: "'s \<Rightarrow> bool"
  assumes load_valid: "load f = Some s \<Longrightarrow> valid s"
    and load_save: "save w s f = (True, f') \<Longrightarrow> load f' = (if valid s then Some s else None)"
    and load_save_failed: "save w s f = (False, f') \<Longrightarrow> load f' = load f"
    and load_erase: "erase ok f = (True, f') \<Longrightarrow> load f' = None"
    and load_erase_failed: "erase ok f = (False, f') \<Longrightarrow> load f' = load f"
begin

text \<open>Whatever goes wrong during a save, a later load sees the old or the new state.\<close>

lemma save_atomic:
  "valid s \<Longrightarrow> load (snd (save w s f)) \<in> {load f, Some s}"
  by (cases "save w s f"; cases "fst (save w s f)") (auto simp: load_save load_save_failed)

lemma erase_atomic: "load (snd (erase ok f)) \<in> {load f, None}"
  by (cases "erase ok f"; cases "fst (erase ok f)") (auto simp: load_erase load_erase_failed)

end

section \<open>The schema round trip\<close>

definition valid_state :: "loop_state \<Rightarrow> bool" where
  "valid_state s \<longleftrightarrow>
     schemaVersion s = STATE_SCHEMA_VERSION \<and> runID s \<noteq> [] \<and> 0 \<le> iteration s
     \<and> MIN_MAX_ITERATIONS \<le> maxIterations s \<and> maxIterations s \<le> MAX_MAX_ITERATIONS
     \<and> validSentinel (JStr (sentinel s)) \<and> sessionID s \<noteq> [] \<and> trim (task s) \<noteq> []
     \<and> 0 \<le> consecutiveFailures s"

lemma integer_in_int_num [simp]:
  "integer_in (JNum (int_num i)) lo None \<longleftrightarrow> lo \<le> i"
  "integer_in (JNum (int_num i)) lo (Some hi) \<longleftrightarrow> lo \<le> i \<and> i \<le> hi"
  by simp_all

lemma int_num_eq [simp]: "int_num i = int_num j \<longleftrightarrow> i = j"
  by (simp add: int_num_def)

lemma encoded_fields:
  assumes "encode_state s = JObj ps"
  shows "obj_get ps ''schemaVersion'' = JNum (int_num (schemaVersion s))"
    "obj_get ps ''runID'' = JStr (runID s)"
    "obj_get ps ''iteration'' = JNum (int_num (iteration s))"
    "obj_get ps ''maxIterations'' = JNum (int_num (maxIterations s))"
    "obj_get ps ''sentinel'' = JStr (sentinel s)"
    "obj_get ps ''sessionID'' = JStr (sessionID s)"
    "obj_get ps ''task'' = JStr (task s)"
    "obj_get ps ''consecutiveFailures'' = JNum (int_num (consecutiveFailures s))"
    "find (\<lambda>k. k \<notin> set allowed_fields) (map fst ps) = None"
  using assms by (auto simp: encode_state_def allowed_fields_def)

lemma decode_encode_steps:
  "decode_state (encode_state s) =
     (if schemaVersion s \<noteq> STATE_SCHEMA_VERSION then Inl Bad_version
      else if runID s = [] then Inl Bad_run_id
      else if \<not> 0 \<le> iteration s then Inl Bad_iteration
      else if \<not> (MIN_MAX_ITERATIONS \<le> maxIterations s \<and> maxIterations s \<le> MAX_MAX_ITERATIONS)
        then Inl Bad_max_iterations
      else if \<not> validSentinel (JStr (sentinel s)) then Inl Bad_sentinel
      else if sessionID s = [] then Inl Bad_session_id
      else if trim (task s) = [] then Inl Bad_task
      else if \<not> 0 \<le> consecutiveFailures s then Inl Bad_consecutive_failures
      else Inr \<lparr>schemaVersion = STATE_SCHEMA_VERSION, runID = runID s, iteration = iteration s,
        maxIterations = maxIterations s, sentinel = sentinel s, sessionID = sessionID s,
        task = task s, consecutiveFailures = consecutiveFailures s\<rparr>)"
proof -
  obtain ps where ps: "encode_state s = JObj ps" by (simp add: encode_state_def)
  have nb: "non_blank_string (JStr t) = (trim t \<noteq> [])" for t by (simp add: non_blank_string_def)
  have ti: "the_int (JNum (int_num i)) = i" for i by simp
  show ?thesis
    unfolding ps decode_state_def jsval.case encoded_fields[OF ps] option.case Let_def
      integer_in_int_num nb ti the_str.simps non_empty_string.simps not_not jsval.inject int_num_eq
    by (rule refl)
qed
lemma state_eq_iff: "s = s' \<longleftrightarrow> schemaVersion s = schemaVersion s' \<and> runID s = runID s' \<and> iteration s = iteration s'
    \<and> maxIterations s = maxIterations s' \<and> sentinel s = sentinel s' \<and> sessionID s = sessionID s'
    \<and> task s = task s' \<and> consecutiveFailures s = consecutiveFailures s'" for s s' :: loop_state
  by (metis loop_state.surjective old.unit.exhaust)

lemma decode_encode:
  "decode_state (encode_state s) = Inr s' \<longleftrightarrow> valid_state s \<and> s' = s"
proof (cases "valid_state s")
  case True
  then show ?thesis unfolding decode_encode_steps valid_state_def by (auto simp: state_eq_iff[of s] state_eq_iff[of s'])
next
  case False
  then have "\<And>r. decode_state (encode_state s) = Inr r \<Longrightarrow> False" unfolding decode_encode_steps valid_state_def by (auto split: if_split_asm)
  with False show ?thesis by blast
qed

lemma integer_inD:
  "integer_in x lo hi \<Longrightarrow> lo \<le> the_int x" "integer_in x lo (Some b) \<Longrightarrow> the_int x \<le> b"
  by (cases x; simp)+

lemma validSentinel_string: "validSentinel x \<Longrightarrow> x = JStr (the_str x)"
  unfolding validSentinel_def by (cases x) simp_all

lemma string_checksD:
  "non_empty_string x \<Longrightarrow> the_str x \<noteq> []"
  "non_blank_string x \<Longrightarrow> trim (the_str x) \<noteq> []"
  by (cases x; simp add: non_blank_string_def)+

lemma decode_valid:
  assumes "decode_state v = Inr s"
  shows "valid_state s"
proof -
  obtain obj where v: "v = JObj obj" and f: "find (\<lambda>k. k \<notin> set allowed_fields) (map fst obj) = None"
    using assms by (auto simp: decode_state_def split: jsval.splits option.splits)
  show ?thesis
    using assms unfolding v decode_state_def jsval.case f option.case Let_def guard_eq_Inr not_not
    by (auto simp: valid_state_def validSentinel_string[symmetric] dest: integer_inD string_checksD)
qed

section \<open>The state file implements the interface\<close>

definition loaded :: "string \<Rightarrow> fs \<Rightarrow> loop_state option" where
  "loaded p f = fst (readState True p f)"

lemma readState_fst: "fst (readState ok p f) = loaded p f"
  by (auto simp: loaded_def readState_def split: option.split content.split sum.split)

lemma tmp_file_neq [simp]: "tmp_file p \<noteq> p" "p \<noteq> tmp_file p"
  by (simp_all add: tmp_file_def)

lemma loaded_Doc: "f p = Some (Doc v) \<Longrightarrow> loaded p f = (case decode_state v of Inl _ \<Rightarrow> None | Inr s \<Rightarrow> Some s)"
  by (simp add: loaded_def readState_def split: sum.split)

lemma loaded_None: "f p = None \<Longrightarrow> loaded p f = None"
  by (simp add: loaded_def readState_def)

lemma loaded_cong: "f p = g p \<Longrightarrow> loaded p f = loaded p g"
  by (auto simp: loaded_def readState_def split: option.split content.split sum.split)

lemma readState_loaded [simp]: "loaded p (snd (readState ok p f)) = loaded p f"
  by (auto simp: readState_def unlink_def loaded_None loaded_Doc
      split: option.split content.split sum.split)
     (simp add: loaded_def readState_def)

interpretation state_file: durable_store
  "loaded p" "\<lambda>w. writeStateTo w p" "\<lambda>ok. clearState ok p" valid_state for p :: string
proof unfold_locales
  fix f s assume "loaded p f = Some s"
  then show "valid_state s"
    by (auto simp: loaded_def readState_def dest: decode_valid
        split: option.splits content.splits sum.splits)
next
  fix w s f f' assume "writeStateTo w p s f = (True, f')"
  then have "f' p = Some (Doc (encode_state s))"
    by (auto simp: writeStateTo_def split: write_fault.splits)
  moreover have "(case decode_state (encode_state s) of Inl _ \<Rightarrow> None | Inr s \<Rightarrow> Some s)
      = (if valid_state s then Some s else None)"
    using decode_encode[of s] by (cases "decode_state (encode_state s)") force+
  ultimately show "loaded p f' = (if valid_state s then Some s else None)"
    by (simp add: loaded_Doc)
next
  fix w s f f' assume "writeStateTo w p s f = (False, f')"
  then have "f' p = f p" by (auto simp: writeStateTo_def split: write_fault.splits)
  then show "loaded p f' = loaded p f" by (rule loaded_cong)
next
  fix ok f f' assume "clearState ok p f = (True, f')"
  then show "loaded p f' = None"
    by (auto simp: clearState_def unlink_def loaded_None split: if_splits)
next
  fix ok f f' assume "clearState ok p f = (False, f')"
  then show "loaded p f' = loaded p f"
    by (auto simp: clearState_def unlink_def split: if_splits)
qed

section \<open>The live loop of a world\<close>

definition live :: "world \<Rightarrow> loop_state option" where
  "live w = loaded (state_path w) (disk w)"

lemma live_update [simp]:
  "live (w\<lparr>in_flight := a\<rparr>) = live w" "live (w\<lparr>idle_tasks := b\<rparr>) = live w"
  "live (w\<lparr>start_tasks := c\<rparr>) = live w" "live (w\<lparr>status_tasks := d\<rparr>) = live w"
  "live (w\<lparr>next_id := e\<rparr>) = live w" "live (w\<lparr>prompts := g\<rparr>) = live w"
  "live (w\<lparr>used_runs := h\<rparr>) = live w" "live (w\<lparr>deleted_sessions := i\<rparr>) = live w"
  by (simp_all add: live_def)

lemma live_valid: "live w = Some s \<Longrightarrow> valid_state s"
  by (simp add: live_def state_file.load_valid)

text \<open>Each operation on the world's file changes the disk only; the rules say how the live
  loop changes.\<close>

lemma read_worldE:
  assumes "read_world fl w = (s, w')"
  obtains f where "s = live w" "w' = w\<lparr>disk := f\<rparr>" "live w' = live w"
proof -
  obtain f where "readState (unlink_ok fl) (state_path w) (disk w) = (s, f)" "w' = w\<lparr>disk := f\<rparr>"
    using assms by (auto simp: read_world_def split: prod.splits)
  moreover from this have "s = live w" "loaded (state_path w) f = live w"
    using readState_fst[of "unlink_ok fl" "state_path w" "disk w"]
      readState_loaded[of "state_path w" "unlink_ok fl" "disk w"]
    by (simp_all add: live_def)
  ultimately show thesis using that by (simp add: live_def)
qed

lemma clear_worldE:
  obtains f where "clear_world fl w = w\<lparr>disk := f\<rparr>"
    "live (clear_world fl w) = None \<or> live (clear_world fl w) = live w"
    "unlink_ok fl \<Longrightarrow> live (clear_world fl w) = None"
proof -
  have "unlink_ok fl \<Longrightarrow> fst (clearState (unlink_ok fl) (state_path w) (disk w))"
    by (simp add: clearState_def)
  then have "live (clear_world fl w) = None \<or> live (clear_world fl w) = live w"
    "unlink_ok fl \<Longrightarrow> live (clear_world fl w) = None"
    using state_file.erase_atomic[of "state_path w" "unlink_ok fl" "disk w"]
      state_file.load_erase[of "unlink_ok fl" "state_path w" "disk w"]
    by (auto simp: clear_world_def live_def tryClearState_def prod_eq_iff)
  with that show thesis by (simp add: clear_world_def)
qed

lemma live_clear: "unlink_ok fl \<Longrightarrow> live (clear_world fl w) = None"
  by (rule clear_worldE[of fl w])

lemma write_worldE:
  assumes "write_world fl s w = (ok, w')"
  obtains f where "w' = w\<lparr>disk := f\<rparr>"
    "live w' = (if ok then if valid_state s then Some s else None else live w)"
proof -
  obtain f where f: "writeStateTo (write_res fl) (state_path w) s (disk w) = (ok, f)"
    "w' = w\<lparr>disk := f\<rparr>"
    using assms by (auto simp: write_world_def split: prod.splits)
  then have "live w' = (if ok then if valid_state s then Some s else None else live w)"
    by (cases ok) (simp_all add: live_def state_file.load_save state_file.load_save_failed)
  with f that show thesis by blast
qed

lemma stateStillOursE:
  assumes "stateStillOurs fl s w = (ours, w')"
  obtains f where "w' = w\<lparr>disk := f\<rparr>" "live w' = live w"
    "ours \<longleftrightarrow> (\<exists>d. live w = Some d \<and> sessionID d = sessionID s \<and> runID d = runID s)"
proof -
  obtain c w1 where r: "read_world fl w = (c, w1)" by force
  then obtain f where "c = live w" "w1 = w\<lparr>disk := f\<rparr>" "live w1 = live w" by (rule read_worldE)
  with r assms that show thesis
    by (cases "live w") (auto simp: stateStillOurs_def)
qed

end
