(* ===== verification/Loop_File.thy ===== *)
theory Loop_File
  imports Loop_Store Js_Json
begin

text \<open>
  The state file as text.  The model of the plugin keeps for every file what
  \<open>JSON.parse\<close> makes of it; here the file operations work on the texts themselves, and
  the model is shown to be their exact image: reading, writing and clearing commute with
  parsing, for states whose numbers are doubles, and every state that is read is one.
\<close>

section \<open>File operations on texts\<close>

type_synonym text_fs = "string \<rightharpoonup> string"

definition unlink_text :: "bool \<Rightarrow> string \<Rightarrow> text_fs \<Rightarrow> text_fs" where
  "unlink_text ok p f = (if ok then f(p := None) else f)"

definition readStateText :: "bool \<Rightarrow> string \<Rightarrow> text_fs \<Rightarrow> loop_state option \<times> text_fs" where
  "readStateText ok p f =
     (case f p of
        None \<Rightarrow> (None, f)
      | Some t \<Rightarrow>
          (case json_parse t of
             None \<Rightarrow> (None, unlink_text ok p f)
           | Some v \<Rightarrow>
               (case decode_state v of
                  Inl _ \<Rightarrow> (None, unlink_text ok p f)
                | Inr s \<Rightarrow> (Some s, f))))"

text \<open>\<open>JSON.stringify(s, null, 2)\<close>.\<close>

definition state_text :: "loop_state \<Rightarrow> string" where
  "state_text s = stringify ''  '' [] (encode_state s)"

definition writeStateText ::
  "string write_fault \<Rightarrow> string \<Rightarrow> loop_state \<Rightarrow> text_fs \<Rightarrow> bool \<times> text_fs" where
  "writeStateText w p s f =
     (case w of
        Mkdir_fails \<Rightarrow> (False, f)
      | Write_fails t \<Rightarrow> (False, f(tmp_file p \<mapsto> t))
      | Rename_fails \<Rightarrow> (False, f(tmp_file p \<mapsto> state_text s))
      | Write_ok \<Rightarrow> (True, (f(tmp_file p := None))(p \<mapsto> state_text s)))"

definition clearStateText :: "bool \<Rightarrow> string \<Rightarrow> text_fs \<Rightarrow> bool \<times> text_fs" where
  "clearStateText ok p f =
     (if f p = None then (True, f) else (ok, unlink_text ok p f))"

section \<open>The image in the model\<close>

definition parsed_content :: "string \<Rightarrow> content" where
  "parsed_content t = (case json_parse t of None \<Rightarrow> Unparsable | Some v \<Rightarrow> Doc v)"

definition parsed_fs :: "text_fs \<Rightarrow> fs" where
  "parsed_fs f = (\<lambda>p. map_option parsed_content (f p))"

lemma parsed_fs_update [simp]:
  "parsed_fs (f(p \<mapsto> t)) = (parsed_fs f)(p \<mapsto> parsed_content t)"
  "parsed_fs (f(p := None)) = (parsed_fs f)(p := None)"
  by (auto simp: parsed_fs_def fun_eq_iff)

lemma parsed_unlink: "parsed_fs (unlink_text ok p f) = unlink ok p (parsed_fs f)"
  by (simp add: unlink_text_def unlink_def)

definition double_numbers :: "loop_state \<Rightarrow> bool" where
  "double_numbers s \<longleftrightarrow> double_num (int_num (schemaVersion s)) \<and> double_num (int_num (iteration s))
     \<and> double_num (int_num (maxIterations s)) \<and> double_num (int_num (consecutiveFailures s))"

lemma small_double: "\<bar>i\<bar> < 2 ^ 53 \<Longrightarrow> double_num (int_num i)"
  using round_double_int[of "\<bar>i\<bar>"] by (simp add: int_num_def)

lemma integer_in_double: "integer_in x lo hi \<Longrightarrow> doubles x \<Longrightarrow> double_num (int_num (the_int x))"
  by (cases x) (auto simp: int_num_num_int)

lemma decoded_double_numbers:
  assumes "decode_state v = Inr s" "doubles v"
  shows "double_numbers s"
proof -
  obtain obj where v: "v = JObj obj" using assms(1) by (cases v) (simp_all add: decode_state_def)
  have "double_num (int_num 2)" by (rule small_double) simp
  moreover have "double_num (int_num (the_int (obj_get obj k)))" if "integer_in (obj_get obj k) lo hi" for k lo hi
    using that assms(2) v by (intro integer_in_double[OF that] doubles_get) simp
  ultimately show ?thesis using assms(1) v
    unfolding decode_state_def double_numbers_def
    by (auto simp: Let_def STATE_SCHEMA_VERSION_def split: option.splits if_splits)
qed

lemma read_double_numbers: "fst (readStateText ok p f) = Some s \<Longrightarrow> double_numbers s"
  by (auto simp: readStateText_def split: option.splits sum.splits
      dest: json_parse_doubles decoded_double_numbers)

lemma encoded_doc:
  assumes "double_numbers s"
  shows "json_doc (encode_state s)"
proof -
  obtain ps where ps: "encode_state s = JObj ps" by (simp add: encode_state_def)
  then have keys: "map fst ps = allowed_fields" by (auto simp: encode_state_def allowed_fields_def)
  moreover have "json_props ps"
    using assms ps by (auto simp: encode_state_def double_numbers_def)
  ultimately show ?thesis unfolding ps
    by (intro named_keys_doc) (simp_all add: allowed_fields_def char_class_defs)
qed

lemma parsed_state: "double_numbers s \<Longrightarrow> parsed_content (state_text s) = Doc (encode_state s)"
  using parse_stringify[OF encoded_doc, of s "''  ''"]
  by (simp add: parsed_content_def state_text_def json_ws_def)

lemma parsed_fs_at: "parsed_fs f p = map_option parsed_content (f p)"
  by (simp add: parsed_fs_def)

lemma read_commutes:
  "readState ok p (parsed_fs f) = map_prod id parsed_fs (readStateText ok p f)"
  by (simp add: readState_def readStateText_def parsed_fs_at parsed_content_def parsed_unlink
      split: option.split sum.split)

lemma write_commutes:
  "double_numbers s \<Longrightarrow> writeStateTo (map_write_fault parsed_content w) p s (parsed_fs f)
     = map_prod id parsed_fs (writeStateText w p s f)"
  by (cases w) (simp_all add: writeStateTo_def writeStateText_def parsed_state)

lemma clear_commutes:
  "clearState ok p (parsed_fs f) = map_prod id parsed_fs (clearStateText ok p f)"
  by (cases "f p") (simp_all add: clearState_def clearStateText_def parsed_fs_at parsed_unlink)

text \<open>C20: The model's state file is the image of the text file.  Reading, writing with any
  fault (a failed write leaves any text in the temporary file) and clearing the file as
  text, with \<open>JSON.stringify\<close> and \<open>JSON.parse\<close>, give what the model's operations
  give on the parsed files; and the text of a written state reads back as that state.  The
  hypothesis, that the numbers of the state are doubles, holds of every state that is read.\<close>

theorem state_file_text:
  assumes "double_numbers s"
  shows "readState ok p (parsed_fs f) = map_prod id parsed_fs (readStateText ok p f)
    \<and> writeStateTo (map_write_fault parsed_content w) p s (parsed_fs f)
        = map_prod id parsed_fs (writeStateText w p s f)
    \<and> clearState ok p (parsed_fs f) = map_prod id parsed_fs (clearStateText ok p f)
    \<and> (valid_state s \<longrightarrow> fst (readStateText ok p (snd (writeStateText Write_ok p s f))) = Some s)
    \<and> (fst (readStateText ok p f) = Some r \<longrightarrow> double_numbers r)"
proof (intro conjI impI)
  assume valid: "valid_state s"
  have "json_parse (state_text s) = Some (encode_state s)"
    using parse_stringify[OF encoded_doc[OF assms], of "''  ''"]
    by (simp add: state_text_def json_ws_def)
  with valid show "fst (readStateText ok p (snd (writeStateText Write_ok p s f))) = Some s"
    using decode_encode[of s s]
    by (simp add: readStateText_def writeStateText_def split: sum.split)
qed (simp_all add: read_commutes write_commutes[OF assms] clear_commutes read_double_numbers)

theorem state_file_text_witness:
  "fst (readStateText True ''/p'' (snd (writeStateText Write_ok ''/p''
      \<lparr>schemaVersion = 2, runID = ''r'', iteration = 3, maxIterations = 7, sentinel = ''FIN'',
       sessionID = ''s'', task = ''line one'' @ [LF, QUOTE, BACKSLASH], consecutiveFailures = 1\<rparr> Map.empty)))
   = Some \<lparr>schemaVersion = 2, runID = ''r'', iteration = 3, maxIterations = 7, sentinel = ''FIN'',
       sessionID = ''s'', task = ''line one'' @ [LF, QUOTE, BACKSLASH], consecutiveFailures = 1\<rparr>"
proof -
  let ?s = "\<lparr>schemaVersion = 2, runID = ''r'', iteration = 3, maxIterations = 7, sentinel = ''FIN'',
       sessionID = ''s'', task = ''line one'' @ [LF, QUOTE, BACKSLASH], consecutiveFailures = 1\<rparr>"
  have "double_numbers ?s" by (simp add: double_numbers_def small_double del: double_num.simps)
  moreover have "valid_state ?s" by code_simp
  ultimately show ?thesis using state_file_text by blast
qed

end
