(* ===== verification/Machine.thy ===== *)
theory Machine
  imports Main
begin

text \<open>
  Transition systems: the reachable states of a step relation, finite runs, and the rule
  that an inductive invariant holds in every reachable state, as a locale that the event
  loops of the two stateful plugins interpret.
\<close>

inductive reachable :: "('s \<Rightarrow> bool) \<Rightarrow> ('s \<Rightarrow> 'a \<Rightarrow> 's \<Rightarrow> bool) \<Rightarrow> 's \<Rightarrow> bool"
  for init step where
  start: "init s \<Longrightarrow> reachable init step s"
| step: "reachable init step s \<Longrightarrow> step s a t \<Longrightarrow> reachable init step t"

inductive run :: "('s \<Rightarrow> 'a \<Rightarrow> 's \<Rightarrow> bool) \<Rightarrow> 's \<Rightarrow> 'a list \<Rightarrow> 's \<Rightarrow> bool" for step where
  run_done: "run step s [] s"
| run_more: "step s a t \<Longrightarrow> run step t acts u \<Longrightarrow> run step s (a # acts) u"

lemma run_snoc: "run step s acts t \<Longrightarrow> step t a u \<Longrightarrow> run step s (acts @ [a]) u"
  by (induction rule: run.induct) (auto intro: run.intros)

text \<open>The interface between a transition system and an invariant of it.\<close>

locale invariant_of =
  fixes init :: "'s \<Rightarrow> bool" and step :: "'s \<Rightarrow> 'a \<Rightarrow> 's \<Rightarrow> bool" and inv :: "'s \<Rightarrow> bool"
  assumes inv_init: "init s \<Longrightarrow> inv s"
    and inv_step: "inv s \<Longrightarrow> step s a t \<Longrightarrow> inv t"
begin

lemma inv_reachable: "reachable init step s \<Longrightarrow> inv s"
  by (induction rule: reachable.induct) (auto intro: inv_init inv_step)

lemma inv_run: "run step s acts t \<Longrightarrow> inv s \<Longrightarrow> inv t"
  by (induction rule: run.induct) (auto intro: inv_step)

end

text \<open>A property that no step ends once it holds, under the invariant.\<close>

locale stable_in = invariant_of init step inv
  for init :: "'s \<Rightarrow> bool" and step :: "'s \<Rightarrow> 'a \<Rightarrow> 's \<Rightarrow> bool" and inv :: "'s \<Rightarrow> bool" +
  fixes stable :: "'s \<Rightarrow> bool"
  assumes stable_step: "inv s \<Longrightarrow> stable s \<Longrightarrow> step s a t \<Longrightarrow> stable t"
begin

lemma stable_run: "run step s acts t \<Longrightarrow> inv s \<Longrightarrow> stable s \<Longrightarrow> stable t \<and> inv t"
  by (induction rule: run.induct) (auto intro: stable_step inv_step)

end


text \<open>An account that starts at zero: an action may spend its cost from the balance, and adds
  to it no more than its credit.\<close>

locale credited = invariant_of init step inv
  for init :: "'s \<Rightarrow> bool" and step :: "'s \<Rightarrow> 'a \<Rightarrow> 's \<Rightarrow> bool" and inv :: "'s \<Rightarrow> bool" +
  fixes balance :: "'s \<Rightarrow> nat" and cost credit :: "'a \<Rightarrow> nat"
  assumes balance_init: "init s \<Longrightarrow> balance s = 0"
    and balance_step: "inv s \<Longrightarrow> step s a t \<Longrightarrow> balance t + cost a \<le> balance s + credit a"
begin

lemma balance_run:
  "run step s acts t \<Longrightarrow> inv s \<Longrightarrow>
   balance t + sum_list (map cost acts) \<le> balance s + sum_list (map credit acts)"
proof (induction rule: run.induct)
  case (run_more s a t acts u)
  then show ?case using balance_step[of s a t] inv_step[of s a t] by simp
qed simp

lemma balance_from_start:
  "init s \<Longrightarrow> run step s acts t \<Longrightarrow> balance t + sum_list (map cost acts) \<le> sum_list (map credit acts)"
  using balance_run[of s acts t] balance_init[of s] inv_init[of s] by simp

end

text \<open>A refinement mapping: every step of the concrete system is, under the invariant, a
  step of the abstract one whose label the concrete action permits.  Runs and reachable
  states carry over.\<close>

locale refinement_map = invariant_of init step inv
  for init :: "'s \<Rightarrow> bool" and step :: "'s \<Rightarrow> 'a \<Rightarrow> 's \<Rightarrow> bool" and inv :: "'s \<Rightarrow> bool" +
  fixes spec_init :: "'t \<Rightarrow> bool" and spec_step :: "'t \<Rightarrow> 'l \<Rightarrow> 't \<Rightarrow> bool"
    and view :: "'s \<Rightarrow> 't" and permits :: "'a \<Rightarrow> 'l \<Rightarrow> bool"
  assumes view_init: "init s \<Longrightarrow> spec_init (view s)"
    and view_step: "inv s \<Longrightarrow> step s a t \<Longrightarrow> \<exists>l. permits a l \<and> spec_step (view s) l (view t)"
begin

lemma run_refines:
  "run step s acts t \<Longrightarrow> inv s \<Longrightarrow> \<exists>ls. list_all2 permits acts ls \<and> run spec_step (view s) ls (view t)"
proof (induction rule: run.induct)
  case (run_done s)
  show ?case by (auto intro: run.run_done)
next
  case (run_more s a t acts u)
  from run_more.prems run_more.hyps(1) have "inv t" by (rule inv_step)
  with run_more.IH obtain ls where "list_all2 permits acts ls" "run spec_step (view t) ls (view u)"
    by blast
  moreover obtain l where "permits a l" "spec_step (view s) l (view t)"
    using view_step[OF run_more.prems run_more.hyps(1)] by blast
  ultimately have "list_all2 permits (a # acts) (l # ls) \<and> run spec_step (view s) (l # ls) (view u)"
    by (auto intro: run.run_more)
  then show ?case by blast
qed

lemma reachable_refines: "reachable init step s \<Longrightarrow> reachable spec_init spec_step (view s)"
proof (induction rule: reachable.induct)
  case (start s)
  then show ?case by (auto intro: reachable.start view_init)
next
  case (step s a t)
  then obtain l where "spec_step (view s) l (view t)" using view_step inv_reachable by blast
  with step.IH show ?case by (rule reachable.step)
qed

end

end
