(* ===== verification/Loop_Inv.thy ===== *)
theory Loop_Inv
  imports Loop_Store Machine
begin

text \<open>
  The inductive invariant of the loop plugin.  A handler works on a local copy of the loop
  state across its awaits; the invariant says that, as long as the run on disk is the run of
  the copy, the copy is exact, because the handler holds the \<open>inFlight\<close> marker of the
  session.  The continuations of a run are then numbered without repetition or gap.
\<close>

section \<open>The environment's good behaviour\<close>

text \<open>
  The deletion of the state file succeeds when its session is announced as deleted, and the
  server does not report a session announced as deleted as an existing root session.
\<close>

definition benign :: "world \<Rightarrow> action \<times> faults \<Rightarrow> bool" where
  "benign w act =
     (case fst act of
        Event type props \<Rightarrow>
          (case decode_loop_event type props of Deleted sid \<Rightarrow> unlink_ok (snd act) | _ \<Rightarrow> True)
      | Start_reply tid r uuid \<Rightarrow>
          (case start_tasks w tid of
             Some st \<Rightarrow> st_session st \<in> deleted_sessions w \<longrightarrow> sessionKind r \<noteq> Root
           | None \<Rightarrow> True)
      | _ \<Rightarrow> True)"

definition benign_step :: "world \<Rightarrow> action \<times> faults \<Rightarrow> world \<Rightarrow> bool" where
  "benign_step w act w' \<longleftrightarrow> loop_step w act w' \<and> benign w act"

definition is_init :: "world \<Rightarrow> bool" where
  "is_init w \<longleftrightarrow> (\<exists>p. w = init_world p)"

section \<open>The invariant\<close>

fun held :: "pc \<Rightarrow> loop_state option" where
  "held (Await_kind s) = Some s"
| "held (Await_messages s) = Some s"
| "held (Await_prompt s n) = Some s"
| "held Finished = None"
| "held Threw = None"

fun expected :: "pc \<Rightarrow> loop_state option" where
  "expected (Await_kind s) = Some s"
| "expected (Await_messages s) = Some s"
| "expected (Await_prompt s n) = Some (s\<lparr>iteration := n, consecutiveFailures := 0\<rparr>)"
| "expected Finished = None"
| "expected Threw = None"

definition labels :: "string \<Rightarrow> world \<Rightarrow> int list" where
  "labels r w = map p_label (filter (\<lambda>c. p_run c = r) (prompts w))"

definition marker_inv :: "world \<Rightarrow> bool" where
  "marker_inv w \<longleftrightarrow>
     (\<forall>tid t. idle_tasks w tid = Some t \<longrightarrow>
        tid < next_id w
        \<and> (t_session t \<in> deleted_sessions w \<or> in_flight w (t_session t) = Some tid))"

definition live_inv :: "world \<Rightarrow> bool" where
  "live_inv w \<longleftrightarrow>
     (\<forall>d. live w = Some d \<longrightarrow>
        sessionID d \<notin> deleted_sessions w \<and> runID d \<in> used_runs w
        \<and> iteration d \<le> maxIterations d \<and> labels (runID d) w = [1..iteration d])"

definition copy_ok :: "world \<Rightarrow> idle_task \<Rightarrow> bool" where
  "copy_ok w t \<longleftrightarrow>
     (\<forall>s. held (t_pc t) = Some s \<longrightarrow>
        sessionID s = t_session t \<and> runID s \<in> used_runs w \<and> valid_state s
        \<and> (\<forall>s' n. t_pc t = Await_prompt s' n \<longrightarrow> n = iteration s' + 1 \<and> n \<le> maxIterations s')
        \<and> (\<forall>d. live w = Some d \<longrightarrow> runID d = runID s \<longrightarrow> expected (t_pc t) = Some d))"

definition prompt_inv :: "world \<Rightarrow> bool" where
  "prompt_inv w \<longleftrightarrow>
     (\<forall>r. labels r w = [1..int (length (labels r w))])
     \<and> (\<forall>c \<in> set (prompts w). p_run c \<in> used_runs w \<and> 1 \<le> p_label c \<and> p_label c \<le> p_max c)"

definition loop_inv :: "world \<Rightarrow> bool" where
  "loop_inv w \<longleftrightarrow>
     marker_inv w \<and> live_inv w \<and> prompt_inv w
     \<and> (\<forall>tid t. idle_tasks w tid = Some t \<longrightarrow> copy_ok w t)"

lemma loop_inv_init: "is_init w \<Longrightarrow> loop_inv w"
  by (auto simp: is_init_def init_world_def loop_inv_def marker_inv_def live_inv_def
      prompt_inv_def labels_def live_def loaded_None)

lemma labels_update [simp]:
  "labels r (w\<lparr>disk := a\<rparr>) = labels r w" "labels r (w\<lparr>in_flight := b\<rparr>) = labels r w"
  "labels r (w\<lparr>idle_tasks := c\<rparr>) = labels r w" "labels r (w\<lparr>start_tasks := d\<rparr>) = labels r w"
  "labels r (w\<lparr>status_tasks := e\<rparr>) = labels r w" "labels r (w\<lparr>next_id := f\<rparr>) = labels r w"
  "labels r (w\<lparr>used_runs := g\<rparr>) = labels r w" "labels r (w\<lparr>deleted_sessions := h\<rparr>) = labels r w"
  by (simp_all add: labels_def)

section \<open>Changes that keep or drop the live loop\<close>

text \<open>A world that differs in the disk only, with the live loop kept or gone.\<close>

definition quiet :: "world \<Rightarrow> world \<Rightarrow> bool" where
  "quiet w w' \<longleftrightarrow> (\<exists>f. w' = w\<lparr>disk := f\<rparr>) \<and> (live w' = live w \<or> live w' = None)"

lemma quiet_refl [simp, intro]: "quiet w w"
  unfolding quiet_def by (rule conjI, rule exI[of _ "disk w"]) simp_all

lemma marker_inv_update [simp]:
  "marker_inv (w\<lparr>disk := a\<rparr>) = marker_inv w" "marker_inv (w\<lparr>prompts := b\<rparr>) = marker_inv w"
  "marker_inv (w\<lparr>used_runs := c\<rparr>) = marker_inv w"
  by (simp_all add: marker_inv_def)

lemma prompt_inv_update [simp]:
  "prompt_inv (w\<lparr>disk := a\<rparr>) = prompt_inv w" "prompt_inv (w\<lparr>in_flight := b\<rparr>) = prompt_inv w"
  "prompt_inv (w\<lparr>idle_tasks := c\<rparr>) = prompt_inv w" "prompt_inv (w\<lparr>next_id := d\<rparr>) = prompt_inv w"
  "prompt_inv (w\<lparr>deleted_sessions := e\<rparr>) = prompt_inv w"
  by (simp_all add: prompt_inv_def)

lemma live_inv_update [simp]:
  "live_inv (w\<lparr>in_flight := b\<rparr>) = live_inv w" "live_inv (w\<lparr>idle_tasks := c\<rparr>) = live_inv w"
  "live_inv (w\<lparr>next_id := d\<rparr>) = live_inv w"
  by (simp_all add: live_inv_def)

lemma copy_ok_update [simp]:
  "copy_ok (w\<lparr>in_flight := b\<rparr>) = copy_ok w" "copy_ok (w\<lparr>idle_tasks := c\<rparr>) = copy_ok w"
  "copy_ok (w\<lparr>next_id := d\<rparr>) = copy_ok w" "copy_ok (w\<lparr>deleted_sessions := e\<rparr>) = copy_ok w"
  by (simp_all add: copy_ok_def fun_eq_iff)

lemma copy_ok_disk:
  "copy_ok w t \<Longrightarrow> live (w\<lparr>disk := f\<rparr>) = live w \<or> live (w\<lparr>disk := f\<rparr>) = None \<Longrightarrow>
   copy_ok (w\<lparr>disk := f\<rparr>) t"
  by (auto simp: copy_ok_def)

lemma live_inv_disk:
  "live_inv w \<Longrightarrow> live (w\<lparr>disk := f\<rparr>) = live w \<or> live (w\<lparr>disk := f\<rparr>) = None \<Longrightarrow>
   live_inv (w\<lparr>disk := f\<rparr>)"
  by (auto simp: live_inv_def)

lemma quiet_inv: "quiet w w' \<Longrightarrow> loop_inv w \<Longrightarrow> loop_inv w'"
  by (auto simp: quiet_def loop_inv_def live_inv_disk copy_ok_disk)

lemma quiet_read: "read_world fl w = (s, w') \<Longrightarrow> quiet w w'"
  by (auto simp: quiet_def elim!: read_worldE)

lemma quiet_clear: "quiet w (clear_world fl w)"
  unfolding quiet_def by (rule clear_worldE[of fl w]) auto

lemma quiet_fields:
  assumes "quiet w w'"
  shows "idle_tasks w' = idle_tasks w" "in_flight w' = in_flight w" "prompts w' = prompts w"
    "next_id w' = next_id w" "used_runs w' = used_runs w" "deleted_sessions w' = deleted_sessions w"
    "start_tasks w' = start_tasks w" "status_tasks w' = status_tasks w"
    "state_path w' = state_path w"
  using assms by (auto simp: quiet_def)

lemma quiet_trans: "quiet a b \<Longrightarrow> quiet b c \<Longrightarrow> quiet a c"
  by (auto simp: quiet_def)

text \<open>Fields the invariant does not mention.\<close>

lemma loop_inv_other [simp]:
  "loop_inv (w\<lparr>start_tasks := a\<rparr>) = loop_inv w" "loop_inv (w\<lparr>status_tasks := b\<rparr>) = loop_inv w"
  "loop_inv (w\<lparr>start_tasks := a, next_id := n\<rparr>) = loop_inv (w\<lparr>next_id := n\<rparr>)"
  "loop_inv (w\<lparr>status_tasks := b, next_id := n\<rparr>) = loop_inv (w\<lparr>next_id := n\<rparr>)"
  by (simp_all add: loop_inv_def marker_inv_def live_inv_def prompt_inv_def copy_ok_def)

lemma loop_inv_next: "loop_inv w \<Longrightarrow> next_id w \<le> n \<Longrightarrow> loop_inv (w\<lparr>next_id := n\<rparr>)"
  by (auto simp: loop_inv_def) (auto simp: marker_inv_def dest: less_le_trans)

section \<open>A task moves on\<close>

lemma set_task_inv:
  assumes "loop_inv w" "idle_tasks w tid = Some t" "t_session t' = t_session t" "copy_ok w t'"
  shows "loop_inv (set_task tid t' w)"
  using assms by (auto simp: loop_inv_def set_task_def) (auto simp: marker_inv_def)

lemma copy_ok_none: "held (t_pc t) = None \<Longrightarrow> copy_ok w t"
  by (simp add: copy_ok_def)

lemma copy_ok_pending [simp]: "copy_ok w (t\<lparr>t_pending := b\<rparr>) = copy_ok w t"
  by (simp add: copy_ok_def)

lemma set_pending_inv: "loop_inv w \<Longrightarrow> loop_inv (set_pending tid w)"
proof (cases "idle_tasks w tid")
  case None
  then have "set_pending tid w = w" by (simp add: set_pending_def fun_upd_idem)
  then show "loop_inv w \<Longrightarrow> loop_inv (set_pending tid w)" by simp
next
  case (Some t)
  then have "set_pending tid w = set_task tid (t\<lparr>t_pending := True\<rparr>) w"
    by (simp add: set_pending_def set_task_def)
  with Some show "loop_inv w \<Longrightarrow> loop_inv (set_pending tid w)"
    using set_task_inv[OF _ Some, of "t\<lparr>t_pending := True\<rparr>"] by (auto simp: loop_inv_def)
qed

lemma begin_cases:
  assumes "handleIdle_begin fl sid w = (c, w')"
  obtains "quiet w w'" "c = Finished"
  | s where "quiet w w'" "c = Await_kind s" "live w = Some s" "live w' = Some s" "sessionID s = sid"
proof -
  obtain s w1 where r: "read_world fl w = (s, w1)" by force
  then have q: "quiet w w1" by (rule quiet_read)
  from r have "s = live w" "live w1 = live w" by (auto elim: read_worldE)
  with r q assms that show thesis
    by (auto simp: handleIdle_begin_def split: option.splits if_splits)
qed

lemma begin_copy_ok:
  assumes "handleIdle_begin fl (t_session t) w = (t_pc t, w')" "loop_inv w"
  shows "quiet w w' \<and> copy_ok w' t"
  using assms(1)
proof (cases rule: begin_cases)
  case 1
  then show ?thesis by (simp add: copy_ok_none)
next
  case (2 s)
  with assms(2) show ?thesis
    by (auto simp: copy_ok_def loop_inv_def live_inv_def quiet_fields live_valid)
qed

lemma marker_unique:
  assumes "loop_inv w" "idle_tasks w tid = Some t" "idle_tasks w tid' = Some t'"
    and "t_session t' = t_session t" "t_session t \<notin> deleted_sessions w"
  shows "tid' = tid"
  using assms by (auto simp: loop_inv_def marker_inv_def) (metis option.inject)

lemma expected_held:
  "held c = Some s \<Longrightarrow> expected c = Some d \<Longrightarrow> sessionID d = sessionID s \<and> runID d = runID s"
  by (cases c) auto

text \<open>The general step of a suspended task: another task on the same run does not exist.\<close>

lemma other_task_stale:
  assumes "loop_inv w" "idle_tasks w tid = Some t" "held (t_pc t) = Some s"
    and "live w = Some d" "runID d = runID s"
    and "idle_tasks w tid' = Some t'" "tid' \<noteq> tid" "held (t_pc t') = Some s'"
  shows "runID s' \<noteq> runID s"
proof
  assume same: "runID s' = runID s"
  have "copy_ok w t" "copy_ok w t'" using assms(1,2,6) by (auto simp: loop_inv_def)
  then have "sessionID s = t_session t" "sessionID s' = t_session t'"
    "expected (t_pc t) = Some d" "expected (t_pc t') = Some d"
    using assms same by (auto simp: copy_ok_def)
  moreover from this have "sessionID d = sessionID s" "sessionID d = sessionID s'"
    using assms(3,8) expected_held by blast+
  moreover have "sessionID d \<notin> deleted_sessions w"
    using assms(1,4) by (auto simp: loop_inv_def live_inv_def)
  ultimately show False using marker_unique[OF assms(1,2,6)] assms(7) by metis
qed

lemma upto_length: "xs = [1..i] \<Longrightarrow> xs = [1..int (length xs)]"
  by (cases "1 \<le> i") auto

lemma write_back_inv:
  assumes inv: "loop_inv w" and t: "idle_tasks w tid = Some t" "held (t_pc t) = Some s"
    and d: "live w = Some d" "runID d = runID s"
    and w': "w' = w\<lparr>disk := f, prompts := prompts w @ extra\<rparr>"
    and d': "live w' = Some d'" "sessionID d' = sessionID d" "runID d' = runID d"
      "iteration d' \<le> maxIterations d'"
    and lab: "labels (runID d) w' = [1..iteration d']"
    and extra: "\<And>c. c \<in> set extra \<Longrightarrow> p_run c = runID d \<and> 1 \<le> p_label c \<and> p_label c \<le> p_max c"
    and t': "t_session t' = t_session t" "copy_ok w' t'"
  shows "loop_inv (set_task tid t' w')"
proof -
  have used: "runID d \<in> used_runs w" "sessionID d \<notin> deleted_sessions w"
    using inv d(1) by (auto simp: loop_inv_def live_inv_def)
  have "live_inv w'" using used d' lab by (simp add: live_inv_def w')
  moreover have "prompt_inv w'"
  proof -
    have "labels r w' = [1..int (length (labels r w'))]" for r
    proof (cases "r = runID d")
      case True
      with lab show ?thesis by (simp add: upto_length)
    next
      case False
      then have "filter (\<lambda>c. p_run c = r) extra = []"
        using extra by (auto simp: filter_empty_conv)
      then have "labels r w' = labels r w" by (simp add: w' labels_def)
      then show ?thesis using inv by (simp add: loop_inv_def prompt_inv_def)
    qed
    then show ?thesis
      using inv extra used(1) unfolding prompt_inv_def by (auto simp: w' loop_inv_def prompt_inv_def)
  qed
  moreover have "marker_inv w'" using inv by (simp add: loop_inv_def w')
  moreover have "copy_ok w' u" if u: "idle_tasks w tid' = Some u" "tid' \<noteq> tid" for tid' u
  proof -
    have "copy_ok w u" using inv u by (auto simp: loop_inv_def)
    moreover have "runID s' \<noteq> runID d'" if "held (t_pc u) = Some s'" for s'
      using other_task_stale[OF inv t d u that] d(2) d'(3) by simp
    ultimately show ?thesis using d'(1) by (auto simp: copy_ok_def w')
  qed
  ultimately show ?thesis
    using t t' by (auto simp: loop_inv_def set_task_def w') (auto simp: marker_inv_def)
qed

section \<open>The handler's segments\<close>

text \<open>The guarded write of both handlers: if the loop on disk is no longer this run, or the
  write fails, or what was written cannot be read, then the step is quiet.\<close>

lemma ours_write:
  assumes ours: "stateStillOurs fl s w = (ours, w1)" and wr: "write_world fl t w1 = (ok, w2)"
  shows "quiet w w1" "\<not> (ok \<and> valid_state t) \<Longrightarrow> quiet w w2"
    "ours \<Longrightarrow> \<exists>d. live w = Some d \<and> sessionID d = sessionID s \<and> runID d = runID s"
    "\<exists>f. w2 = w\<lparr>disk := f\<rparr>" "ok \<Longrightarrow> live w2 = (if valid_state t then Some t else None)"
proof -
  obtain f1 where f1: "w1 = w\<lparr>disk := f1\<rparr>" "live w1 = live w"
    and o: "ours \<longleftrightarrow> (\<exists>d. live w = Some d \<and> sessionID d = sessionID s \<and> runID d = runID s)"
    using ours by (rule stateStillOursE)
  obtain f2 where f2: "w2 = w1\<lparr>disk := f2\<rparr>"
    "live w2 = (if ok then if valid_state t then Some t else None else live w1)"
    using wr by (rule write_worldE)
  show "quiet w w1" using f1 by (auto simp: quiet_def)
  show "quiet w w2" if "\<not> (ok \<and> valid_state t)" using f1 f2 that by (auto simp: quiet_def)
  show "\<exists>d. live w = Some d \<and> sessionID d = sessionID s \<and> runID d = runID s" if ours using o that by blast
  show "\<exists>f. w2 = w\<lparr>disk := f\<rparr>" using f1 f2 by auto
  show "live w2 = (if valid_state t then Some t else None)" if ok using f2 that by simp
qed

lemma onFailure_cases:
  assumes "onFailure fl s w = (c, w')"
  obtains
    (quiet) "quiet w w'" "c = Finished \<or> c = Threw"
  | (saved) f d where "w' = w\<lparr>disk := f\<rparr>" "c = Finished" "live w = Some d"
      "sessionID d = sessionID s" "runID d = runID s"
      "valid_state (s\<lparr>consecutiveFailures := consecutiveFailures s + 1\<rparr>)"
      "live w' = Some (s\<lparr>consecutiveFailures := consecutiveFailures s + 1\<rparr>)"
      "consecutiveFailures s + 1 < MAX_CONSECUTIVE_FAILURES"
proof (cases "consecutiveFailures s + 1 \<ge> MAX_CONSECUTIVE_FAILURES")
  case True
  with assms have "c = Finished" "w' = clear_world fl w" by (simp_all add: onFailure_def)
  then show thesis using quiet by (simp add: quiet_clear)
next
  case False
  let ?s = "s\<lparr>consecutiveFailures := consecutiveFailures s + 1\<rparr>"
  obtain ours w1 where o: "stateStillOurs fl s w = (ours, w1)" by force
  obtain ok w2 where wr: "write_world fl ?s w1 = (ok, w2)" by force
  note effect = ours_write[OF o wr]
  have c: "c = (if ours \<and> \<not> ok then Threw else Finished)" "w' = (if ours then w2 else w1)"
    using assms False o wr by (cases ours; cases ok; simp add: onFailure_def)+
  show thesis
  proof (cases "ours \<and> ok \<and> valid_state ?s")
    case True
    obtain d f where "live w = Some d" "sessionID d = sessionID s" "runID d = runID s" "w2 = w\<lparr>disk := f\<rparr>"
      using effect(3,4) True by blast
    with True c effect(5) False show thesis by (intro saved[of f d]) simp_all
  next
    case False
    then have "quiet w w'" using c(2) effect(1,2) by auto
    then show thesis using c(1) by (intro quiet) auto
  qed
qed

lemma messages_cases:
  assumes "handleIdle_messages fl s m w = (c, w')"
  obtains
    (failed) "m = Messages_failed" "onFailure fl s w = (c, w')"
  | (quiet) "quiet w w'" "c = Finished \<or> c = Threw"
  | (prompted) f d n where "n = iteration s + 1" "iteration s < maxIterations s"
      "w' = w\<lparr>disk := f, prompts := prompts w @ [prompt_of s n]\<rparr>" "c = Await_prompt s n"
      "live w = Some d" "sessionID d = sessionID s" "runID d = runID s"
      "live w' = (if valid_state (s\<lparr>iteration := n, consecutiveFailures := 0\<rparr>)
        then Some (s\<lparr>iteration := n, consecutiveFailures := 0\<rparr>) else None)"
      "m \<noteq> Messages_failed"
proof (cases m)
  case Messages_failed
  with assms failed show thesis by (simp add: handleIdle_messages_def)
next
  case (Rows rows)
  show thesis
  proof (cases "\<exists>text. lastAssistantText rows = Some text
      \<and> \<not> matchesSentinel text (sentinel s) \<and> \<not> iteration s \<ge> maxIterations s")
    case False
    then have "c = Finished" "w' = w \<or> w' = clear_world fl w"
      using assms Rows by (auto simp: handleIdle_messages_def split: option.splits if_splits)
    then show thesis using quiet quiet_clear by auto
  next
    case True
    let ?n = "iteration s + 1"
    let ?s = "s\<lparr>iteration := ?n, consecutiveFailures := 0\<rparr>"
    obtain ours w1 where o: "stateStillOurs fl s w = (ours, w1)" by force
    obtain ok w2 where wr: "write_world fl ?s w1 = (ok, w2)" by force
    note effect = ours_write[OF o wr]
    have step: "(c, w') = (if \<not> ours then (Finished, w1) else if \<not> ok then (Threw, w2)
        else (Await_prompt s ?n, w2\<lparr>prompts := prompts w2 @ [prompt_of s ?n]\<rparr>))"
      using assms Rows True o wr by (auto simp: handleIdle_messages_def Let_def)
    show thesis
    proof (cases "ours \<and> ok")
      case False
      then have "quiet w w'" "c = Finished \<or> c = Threw"
        using step effect(1,2) by (auto split: if_splits)
      then show thesis by (rule quiet)
    next
      case yes: True
      obtain d f where d: "live w = Some d" "sessionID d = sessionID s" "runID d = runID s"
        and f: "w2 = w\<lparr>disk := f\<rparr>"
        using effect(3,4) yes by blast
      show thesis
        by (rule prompted[OF refl _ _ _ d, of f]) (use True step f effect(5) yes Rows in auto)
    qed
  qed
qed

section \<open>Every action keeps the invariant\<close>

lemma quiet_step_inv:
  assumes "loop_inv w" "idle_tasks w tid = Some t" "quiet w w'" "held c = None"
  shows "loop_inv (set_task tid (t\<lparr>t_pc := c\<rparr>) w')"
  using assms quiet_inv[OF assms(3,1)]
  by (intro set_task_inv) (auto simp: quiet_fields copy_ok_none)

lemma kind_inv:
  assumes "loop_inv w" "idle_tasks w tid = Some t" "t_pc t = Await_kind s"
  shows "loop_inv (step_task tid t (handleIdle_kind fl s r) w)"
proof (cases "sessionKind r")
  case Root
  have "copy_ok w t" using assms by (auto simp: loop_inv_def)
  with assms have "copy_ok w (t\<lparr>t_pc := Await_messages s\<rparr>)" by (auto simp: copy_ok_def)
  with assms Root show ?thesis
    by (auto simp: step_task_def handleIdle_kind_def intro!: set_task_inv)
next
  case Missing
  with assms show ?thesis
    by (simp add: step_task_def handleIdle_kind_def quiet_step_inv quiet_clear)
qed (use assms in \<open>simp_all add: step_task_def handleIdle_kind_def quiet_step_inv\<close>)

lemma valid_state_bump:
  "valid_state s \<Longrightarrow> valid_state (s\<lparr>iteration := iteration s + 1, consecutiveFailures := 0\<rparr>)"
  by (simp add: valid_state_def)

lemma failure_inv:
  assumes inv: "loop_inv w" and t: "idle_tasks w tid = Some t" "held (t_pc t) = Some s"
    and exp: "\<And>d. expected (t_pc t) = Some d \<Longrightarrow>
      iteration d = iteration s' \<and> maxIterations d = maxIterations s'"
    and s': "sessionID s' = sessionID s" "runID s' = runID s"
    and step: "onFailure fl s' w = (c, w')"
  shows "loop_inv (set_task tid (t\<lparr>t_pc := c\<rparr>) w')"
  using step
proof (cases rule: onFailure_cases)
  case quiet
  then show ?thesis using inv t by (auto intro!: quiet_step_inv)
next
  case (saved f d)
  have "copy_ok w t" using inv t by (auto simp: loop_inv_def)
  then have e: "expected (t_pc t) = Some d" using saved t s' by (auto simp: copy_ok_def)
  have d: "iteration d \<le> maxIterations d" "labels (runID d) w = [1..iteration d]"
    using inv saved(3) by (auto simp: loop_inv_def live_inv_def)
  show ?thesis
    by (rule write_back_inv[OF inv t saved(3), where extra = "[]" and f = f
          and d' = "s'\<lparr>consecutiveFailures := consecutiveFailures s' + 1\<rparr>"])
       (use saved d exp[OF e] s' in \<open>auto simp: copy_ok_none labels_def\<close>)
qed

lemma messages_inv:
  assumes inv: "loop_inv w" and t: "idle_tasks w tid = Some t" "t_pc t = Await_messages s"
  shows "loop_inv (step_task tid t (handleIdle_messages fl s m) w)"
proof -
  obtain c w' where step: "handleIdle_messages fl s m w = (c, w')" by force
  have held: "held (t_pc t) = Some s" using t by simp
  have copy: "copy_ok w t" using inv t by (auto simp: loop_inv_def)
  from step have "loop_inv (set_task tid (t\<lparr>t_pc := c\<rparr>) w')"
  proof (cases rule: messages_cases)
    case failed
    with t show ?thesis by (auto intro: failure_inv[OF inv t(1) held])
  next
    case quiet
    then show ?thesis using inv t by (auto intro!: quiet_step_inv)
  next
    case (prompted f d n)
    let ?s = "s\<lparr>iteration := n, consecutiveFailures := 0\<rparr>"
    have s: "valid_state s" "sessionID s = t_session t" "runID s \<in> used_runs w" "d = s"
      using copy t prompted(5,7) by (auto simp: copy_ok_def)
    then have live': "live w' = Some ?s" using prompted(1,8) by (simp add: valid_state_bump)
    have d: "labels (runID d) w = [1..iteration d]" "0 \<le> iteration d"
      using inv prompted(5) live_valid[OF prompted(5)]
      by (auto simp: loop_inv_def live_inv_def valid_state_def)
    have lab: "labels (runID d) w' = [1..iteration ?s]"
      using d s prompted(1) upto_rec2[of 1 n]
      by (simp add: prompted(3) labels_def prompt_of_def)
    show ?thesis
      by (rule write_back_inv[OF inv t(1) held prompted(5,7), where extra = "[prompt_of s n]" and f = f
            and d' = ?s])
         (use prompted s d lab live' in \<open>auto simp: copy_ok_def prompt_of_def\<close>)
  qed
  with step show ?thesis by (simp add: step_task_def)
qed

lemma prompt_step_inv:
  assumes inv: "loop_inv w" and t: "idle_tasks w tid = Some t" "t_pc t = Await_prompt s n"
  shows "loop_inv (step_task tid t (handleIdle_prompt fl s n ok) w)"
proof (cases ok)
  case True
  with inv t show ?thesis by (simp add: step_task_def handleIdle_prompt_def quiet_step_inv)
next
  case False
  obtain c w' where step: "onFailure fl (s\<lparr>iteration := n\<rparr>) w = (c, w')" by force
  have "loop_inv (set_task tid (t\<lparr>t_pc := c\<rparr>) w')"
    by (rule failure_inv[OF inv t(1), where s = s]) (use t step in auto)
  with False step show ?thesis by (simp add: step_task_def handleIdle_prompt_def)
qed

lemma finish_inv:
  assumes inv: "loop_inv w" and t: "idle_tasks w tid = Some t"
  shows "loop_inv (finish_task tid t w)"
proof -
  have "marker_inv (finish_task tid t w)"
    unfolding marker_inv_def
  proof (intro allI impI)
    fix tid' t' assume "idle_tasks (finish_task tid t w) tid' = Some t'"
    then have t': "idle_tasks w tid' = Some t'" "tid' \<noteq> tid"
      by (auto simp: finish_task_def split: if_splits)
    moreover have "t_session t' \<in> deleted_sessions w \<or> t_session t' \<noteq> t_session t"
      using marker_unique[OF inv t t'(1)] t'(2) by metis
    ultimately show "tid' < next_id (finish_task tid t w)
        \<and> (t_session t' \<in> deleted_sessions (finish_task tid t w)
          \<or> in_flight (finish_task tid t w) (t_session t') = Some tid')"
      using inv by (auto simp: loop_inv_def marker_inv_def finish_task_def)
  qed
  with inv show ?thesis by (auto simp: loop_inv_def finish_task_def split: if_splits)
qed

lemma continue_inv:
  assumes inv: "loop_inv w" and t: "idle_tasks w tid = Some t"
  shows "loop_inv (continue_task fl tid t w)"
proof (cases "t_pc t = Finished \<and> \<not> t_rerun t \<and> t_pending t")
  case True
  obtain c w1 where b: "handleIdle_begin fl (t_session t) w = (c, w1)" by force
  let ?t = "t\<lparr>t_rerun := True, t_pending := False, t_pc := c\<rparr>"
  have q: "quiet w w1 \<and> copy_ok w1 ?t" by (rule begin_copy_ok[OF _ inv]) (use b in simp)
  then have "loop_inv (set_task tid ?t w1)"
    using t quiet_inv[OF _ inv] by (intro set_task_inv) (auto simp: quiet_fields)
  with True b show ?thesis by (simp add: continue_task_def)
next
  case False
  show ?thesis unfolding continue_task_def if_not_P[OF False] by (rule finish_inv[OF inv t])
qed

lemma processIdle_inv:
  assumes inv: "loop_inv w"
  shows "loop_inv (processIdle fl sid w)"
proof (cases "in_flight w sid")
  case (Some tid)
  then show ?thesis using inv by (simp add: processIdle_def set_pending_inv)
next
  case None
  let ?w1 = "w\<lparr>in_flight := (in_flight w)(sid \<mapsto> next_id w), next_id := Suc (next_id w)\<rparr>"
  have "marker_inv ?w1"
    unfolding marker_inv_def
  proof (intro allI impI)
    fix tid t assume "idle_tasks ?w1 tid = Some t"
    then have "tid < next_id w \<and> (t_session t \<in> deleted_sessions w \<or> in_flight w (t_session t) = Some tid)"
      using inv by (simp add: loop_inv_def marker_inv_def)
    with None show "tid < next_id ?w1
        \<and> (t_session t \<in> deleted_sessions ?w1 \<or> in_flight ?w1 (t_session t) = Some tid)"
      by (cases "t_session t = sid") auto
  qed
  then have inv1: "loop_inv ?w1" using inv by (simp add: loop_inv_def)
  obtain c w2 where b: "handleIdle_begin fl sid ?w1 = (c, w2)" by force
  let ?t = "\<lparr>t_session = sid, t_rerun = False, t_pending = False, t_pc = c\<rparr>"
  have q: "quiet ?w1 w2 \<and> copy_ok w2 ?t" by (rule begin_copy_ok[OF _ inv1]) (use b in simp)
  then have inv2: "loop_inv w2" using quiet_inv[OF _ inv1] by blast
  have "marker_inv (set_task (next_id w) ?t w2)"
    using inv2 q by (auto simp: set_task_def quiet_fields loop_inv_def) (auto simp: marker_inv_def quiet_fields)
  then have "loop_inv (set_task (next_id w) ?t w2)"
    using inv2 q by (auto simp: loop_inv_def set_task_def split: if_splits)
  with None b show ?thesis by (simp add: processIdle_def Let_def)
qed

lemma session_deleted_inv:
  assumes inv: "loop_inv w" and ok: "unlink_ok fl"
  shows "loop_inv (session_deleted fl sid w)"
proof -
  obtain s w1 where r: "read_world fl w = (s, w1)" by force
  then have s: "s = live w" "live w1 = live w" and q: "quiet w w1"
    by (auto elim: read_worldE intro: quiet_read)
  define w2 where "w2 = (case s of Some st \<Rightarrow> if sessionID st = sid then clear_world fl w1 else w1
    | None \<Rightarrow> w1)"
  have q2: "quiet w1 w2" by (simp add: w2_def quiet_clear split: option.split)
  have inv2: "loop_inv w2" using quiet_inv[OF q2 quiet_inv[OF q inv]] .
  have gone: "sessionID d \<noteq> sid" if "live w2 = Some d" for d
  proof
    assume eq: "sessionID d = sid"
    from q2 that have "live w1 = Some d" by (auto simp: quiet_def)
    with eq s have "s = Some d" by simp
    with eq have "w2 = clear_world fl w1" by (simp add: w2_def)
    with that ok show False by (simp add: live_clear)
  qed
  let ?w = "w2\<lparr>in_flight := (in_flight w2)(sid := None),
      deleted_sessions := insert sid (deleted_sessions w2)\<rparr>"
  have "marker_inv ?w" "live_inv ?w"
    using inv2 gone by (auto simp: loop_inv_def marker_inv_def live_inv_def)
  then have "loop_inv ?w" using inv2 by (simp add: loop_inv_def)
  with r show ?thesis by (simp add: session_deleted_def Let_def w2_def)
qed

lemma handle_event_inv:
  "loop_inv w \<Longrightarrow> benign w (Event type props, fl) \<Longrightarrow> loop_inv (handle_event fl type props w)"
  by (auto simp: handle_event_def benign_def processIdle_inv session_deleted_inv
      split: loop_event.splits)

lemma start_begin_quiet: "loop_start_begin fl args sid w = (x, w') \<Longrightarrow> quiet w w'"
  by (auto simp: loop_start_begin_def Let_def quiet_read split: if_splits prod.splits option.splits)

lemma start_resume_inv:
  assumes inv: "loop_inv w" and uuid: "uuid \<notin> used_runs w"
    and ok: "st_session st \<in> deleted_sessions w \<Longrightarrow> sessionKind r \<noteq> Root"
  shows "loop_inv (snd (loop_start_resume fl st r uuid w))"
proof (cases "sessionKind r = Root")
  case False
  then show ?thesis using inv by (auto simp: loop_start_resume_def split: session_kind.splits)
next
  case True
  let ?s = "new_state st uuid"
  obtain k w1 where wr: "write_world fl ?s w = (k, w1)" by force
  then obtain f where f: "w1 = w\<lparr>disk := f\<rparr>"
    "live w1 = (if k then if valid_state ?s then Some ?s else None else live w)"
    by (rule write_worldE)
  let ?w = "w1\<lparr>used_runs := insert uuid (used_runs w1)\<rparr>"
  have lab: "labels uuid w = []"
    using inv uuid by (auto simp: loop_inv_def prompt_inv_def labels_def filter_empty_conv)
  have "live_inv ?w"
    using inv f lab ok True
    by (auto simp: loop_inv_def live_inv_def new_state_def valid_state_def MIN_MAX_ITERATIONS_def
        split: if_splits)
  moreover have "prompt_inv ?w" using inv f by (auto simp: loop_inv_def prompt_inv_def)
  moreover have "marker_inv ?w" using inv f by (simp add: loop_inv_def)
  moreover have "copy_ok ?w t" if "idle_tasks w tid = Some t" for tid t
  proof -
    have "copy_ok w t" using inv that by (auto simp: loop_inv_def)
    with uuid f show ?thesis by (auto simp: copy_ok_def new_state_def)
  qed
  ultimately have "loop_inv ?w" using f by (auto simp: loop_inv_def)
  with True wr show ?thesis by (simp add: loop_start_resume_def)
qed

lemma stop_quiet: "quiet w (snd (loop_stop fl w))"
proof -
  obtain s w1 where r: "read_world fl w = (s, w1)" by force
  then have q: "quiet w w1" by (rule quiet_read)
  have c: "w1\<lparr>disk := snd (clearState (unlink_ok fl) (state_path w1) (disk w1))\<rparr> = clear_world fl w1"
    by (simp add: clear_world_def tryClearState_def)
  have "snd (loop_stop fl w) = w1 \<or> snd (loop_stop fl w) = clear_world fl w1"
    using r c by (auto simp: loop_stop_def split: option.split prod.split)
  with q show ?thesis using quiet_trans quiet_clear by metis
qed

lemma current_status_inv:
  assumes "loop_inv w"
  shows "loop_inv (current_status_begin fl w)"
proof -
  obtain s w1 where r: "read_world fl w = (s, w1)" by force
  then have inv: "loop_inv w1" using quiet_inv[OF quiet_read assms] by blast
  have "loop_inv (w1\<lparr>next_id := Suc (next_id w1)\<rparr>)" by (rule loop_inv_next[OF inv]) simp
  then have "loop_inv (w1\<lparr>status_tasks := f, next_id := Suc (next_id w1)\<rparr>)" for f
    by simp
  with r inv show ?thesis by (simp add: current_status_begin_def split: option.split)
qed

lemma status_reply_inv:
  "loop_inv w \<Longrightarrow> loop_inv (current_status_resume fl tid sid r w)"
  by (simp add: current_status_resume_def Let_def processIdle_inv split: status_reply.split)

lemma restart_inv: "loop_inv w \<Longrightarrow> loop_inv (restart w)"
  by (auto simp: loop_inv_def restart_def marker_inv_def live_inv_def prompt_inv_def
      labels_def live_def)

lemma benign_step_inv:
  assumes inv: "loop_inv w" and step: "benign_step w act w'"
  shows "loop_inv w'"
proof -
  from step have "loop_step w act w'" and ok: "benign w act" by (simp_all add: benign_step_def)
  then show ?thesis
  proof (cases rule: loop_step.cases)
    case (start_suspend fl args sid st w1)
    have "loop_inv w1" using quiet_inv[OF start_begin_quiet inv] start_suspend by blast
    then have "loop_inv (w1\<lparr>next_id := Suc (next_id w1)\<rparr>)" by (rule loop_inv_next) simp
    then have "loop_inv (w1\<lparr>start_tasks := f, next_id := Suc (next_id w1)\<rparr>)" for f
    by simp
    then show ?thesis using start_suspend by simp
  next
    case (start_reply tid st uuid fl r)
    then show ?thesis using inv ok by (auto simp: benign_def intro!: start_resume_inv)
  next
    case (start_answer fl args sid a)
    then show ?thesis using quiet_inv[OF start_begin_quiet inv] by blast
  next
    case (stop fl)
    then show ?thesis using quiet_inv[OF stop_quiet inv] by simp
  qed (use inv ok in \<open>auto simp: kind_inv messages_inv prompt_step_inv continue_inv
      handle_event_inv current_status_inv status_reply_inv restart_inv\<close>)
qed

interpretation loop_machine: invariant_of is_init benign_step loop_inv
  by unfold_locales (auto intro: loop_inv_init benign_step_inv)

end
