(* ===== verification/Loop_Exec.thy ===== *)
theory Loop_Exec
  imports Loop_Inv
begin

text \<open>
  The transition relation of the loop plugin as a function, for running concrete schedules,
  and the actions the sample schedules are made of.
\<close>

fun do_action :: "world \<Rightarrow> action \<times> faults \<Rightarrow> world option" where
  "do_action w (Event type props, fl) = Some (handle_event fl type props w)"
| "do_action w (Kind_reply tid r, fl) =
     (case idle_tasks w tid of
        Some t \<Rightarrow> (case t_pc t of
            Await_kind s \<Rightarrow> Some (step_task tid t (handleIdle_kind fl s r) w)
          | _ \<Rightarrow> None)
      | None \<Rightarrow> None)"
| "do_action w (Messages_reply tid m, fl) =
     (case idle_tasks w tid of
        Some t \<Rightarrow> (case t_pc t of
            Await_messages s \<Rightarrow> Some (step_task tid t (handleIdle_messages fl s m) w)
          | _ \<Rightarrow> None)
      | None \<Rightarrow> None)"
| "do_action w (Prompt_reply tid ok, fl) =
     (case idle_tasks w tid of
        Some t \<Rightarrow> (case t_pc t of
            Await_prompt s n \<Rightarrow> Some (step_task tid t (handleIdle_prompt fl s n ok) w)
          | _ \<Rightarrow> None)
      | None \<Rightarrow> None)"
| "do_action w (Continue tid, fl) =
     (case idle_tasks w tid of
        Some t \<Rightarrow> if t_pc t = Finished \<or> t_pc t = Threw then Some (continue_task fl tid t w) else None
      | None \<Rightarrow> None)"
| "do_action w (Start args sid, fl) =
     (case loop_start_begin fl args sid w of
        (Answer _, w') \<Rightarrow> Some w'
      | (Suspended st, w') \<Rightarrow> Some (w'\<lparr>start_tasks := (start_tasks w')(next_id w' \<mapsto> st),
          next_id := Suc (next_id w')\<rparr>))"
| "do_action w (Start_reply tid r uuid, fl) =
     (case start_tasks w tid of
        Some st \<Rightarrow>
          if uuid \<in> used_runs w \<or> uuid = [] then None
          else Some (snd (loop_start_resume fl st r uuid
            (w\<lparr>start_tasks := (start_tasks w)(tid := None)\<rparr>)))
      | None \<Rightarrow> None)"
| "do_action w (Stop, fl) = Some (snd (loop_stop fl w))"
| "do_action w (Init_status, fl) = Some (current_status_begin fl w)"
| "do_action w (Status_reply tid r, fl) =
     (case status_tasks w tid of
        Some sid \<Rightarrow> Some (current_status_resume fl tid sid r w)
      | None \<Rightarrow> None)"
| "do_action w (Restart, fl) = Some (restart w)"

lemma do_action_iff: "do_action w act = Some w' \<longleftrightarrow> loop_step w act w'"
proof
  assume "do_action w act = Some w'"
  then show "loop_step w act w'"
    by (cases "(w, act)" rule: do_action.cases)
       (auto intro: loop_step.intros split: option.splits pc.splits if_splits prod.splits started.splits)
next
  assume "loop_step w act w'"
  then show "do_action w act = Some w'" by (cases rule: loop_step.cases) auto
qed

text \<open>A schedule whose environment is benign.\<close>

fun do_benign :: "world \<Rightarrow> (action \<times> faults) list \<Rightarrow> world option" where
  "do_benign w [] = Some w"
| "do_benign w (a # acts) =
     (if benign w a then case do_action w a of None \<Rightarrow> None | Some w' \<Rightarrow> do_benign w' acts
      else None)"

lemma do_benign_reachable:
  "do_benign w acts = Some w' \<Longrightarrow> reachable is_init benign_step w \<Longrightarrow>
   reachable is_init benign_step w'"
proof (induction acts arbitrary: w)
  case (Cons a acts)
  then obtain w1 where w1: "do_action w a = Some w1" "benign w a" "do_benign w1 acts = Some w'"
    by (auto split: if_splits option.splits)
  then have "benign_step w a w1" by (simp add: benign_step_def do_action_iff)
  then show ?case using Cons.IH[OF w1(3)] Cons.prems(2) by (blast intro: reachable.step)
qed simp

lemma do_benign_run: "do_benign w acts = Some w' \<Longrightarrow> run benign_step w acts w'"
proof (induction acts arbitrary: w)
  case (Cons a acts)
  then obtain w1 where "do_action w a = Some w1" "benign w a" "do_benign w1 acts = Some w'"
    by (auto split: if_splits option.splits)
  with Cons.IH show ?case by (auto simp: benign_step_def do_action_iff intro: run.run_more)
qed (simp add: run.run_done)

lemma reachable_init: "reachable is_init benign_step (init_world p)"
  by (rule reachable.start) (auto simp: is_init_def)

lemmas do_benign_init = do_benign_reachable[OF _ reachable_init]

definition quietly :: "action list \<Rightarrow> (action \<times> faults) list" where
  "quietly acts = map (\<lambda>a. (a, no_faults)) acts"

text \<open>One action without faults after a benign schedule, and what an observer sees of it.\<close>

definition trial :: "(world \<Rightarrow> world \<Rightarrow> 'a) \<Rightarrow> action list \<Rightarrow> action \<Rightarrow> 'a option" where
  "trial f acts a =
     (case do_benign (init_world ''/p'') (quietly acts) of
        None \<Rightarrow> None
      | Some w \<Rightarrow>
          if benign w (a, no_faults) then map_option (f w) (do_action w (a, no_faults)) else None)"

lemma trial_step:
  assumes "trial f acts a = Some x"
  shows "\<exists>w w'. reachable is_init benign_step w \<and> benign_step w (a, no_faults) w' \<and> f w w' = x"
proof -
  obtain w w' where "do_benign (init_world ''/p'') (quietly acts) = Some w"
    "benign w (a, no_faults)" "do_action w (a, no_faults) = Some w'" "f w w' = x"
    using assms unfolding trial_def
    by (auto simp del: do_action.simps split: option.splits if_splits)
  then have "reachable is_init benign_step w" "benign_step w (a, no_faults) w'" "f w w' = x"
    by (simp_all add: benign_step_def do_action_iff[symmetric] do_benign_init del: do_action.simps)
  then show ?thesis by blast
qed

definition idle_event :: "string \<Rightarrow> action" where
  "idle_event sid = Event ''session.status''
     (JObj [(''sessionID'', JStr sid), (''status'', JObj [(''type'', JStr ''idle'')])])"

lemma decode_idle_event:
  "sid \<noteq> [] \<Longrightarrow> decode_loop_event ''session.status''
     (JObj [(''sessionID'', JStr sid), (''status'', JObj [(''type'', JStr ''idle'')])]) = Idle sid"
  by (simp add: decode_loop_event_def)

text \<open>The reply about a root session.\<close>

definition root_reply :: reply where
  "root_reply = Returned (JObj [])"

section \<open>Sample schedules\<close>

definition sample_start :: "string \<Rightarrow> int \<Rightarrow> action" where
  "sample_start sid n = Start \<lparr>a_task = ''work'', a_sentinel = Some ''FIN'',
     a_max = Some (int_num n)\<rparr> sid"

definition says :: "string \<Rightarrow> messages_reply" where
  "says text = Rows (Some [Some \<lparr>row_role = ''assistant'', row_parts = [Text_part text]\<rparr>])"

text \<open>One idle event that finds an unfinished session and sends the next prompt.\<close>

definition busy_round :: "string \<Rightarrow> nat \<Rightarrow> action list" where
  "busy_round sid tid = [idle_event sid, Kind_reply tid root_reply,
     Messages_reply tid (says ''not yet''), Prompt_reply tid True, Continue tid]"

text \<open>A loop just started in session \<open>s\<close>, and one whose handler has read the messages.\<close>

definition fresh_loop :: "int \<Rightarrow> action list" where
  "fresh_loop n = [sample_start ''s'' n, Start_reply 0 root_reply ''r'']"

definition sample_state :: "int \<Rightarrow> loop_state" where
  "sample_state n = new_state \<lparr>st_task = ''work'', st_sentinel = ''FIN'', st_max = n,
     st_session = ''s''\<rparr> ''r''"

end
