(* ===== verification/Loop_Effects.thy ===== *)
theory Loop_Effects
  imports Loop_Exec
begin

text \<open>
  What one segment of a handler can do to the active loop and to the prompts: most keep the
  loop or end it and send nothing; the failure handling may save the same run again, and the
  completion of a start may install a new one.
\<close>

section \<open>Tame segments\<close>

text \<open>Most segments send nothing and keep or drop the live loop.\<close>

definition tame :: "world \<Rightarrow> world \<Rightarrow> bool" where
  "tame w w' \<longleftrightarrow> prompts w' = prompts w \<and> (live w' = live w \<or> live w' = None)"

lemma quiet_tame: "quiet w w' \<Longrightarrow> tame w w'"
  by (auto simp: tame_def quiet_def)

lemma tame_live: "tame w w' \<Longrightarrow> live w' = Some s \<Longrightarrow> live w = Some s"
  by (auto simp: tame_def)

lemma tame_trans: "tame a b \<Longrightarrow> tame b c \<Longrightarrow> tame a c"
  by (auto simp: tame_def)

lemma tame_update [simp]:
  "tame w (w'\<lparr>in_flight := a\<rparr>) = tame w w'" "tame w (w'\<lparr>idle_tasks := b\<rparr>) = tame w w'"
  "tame w (w'\<lparr>start_tasks := c\<rparr>) = tame w w'" "tame w (w'\<lparr>status_tasks := d\<rparr>) = tame w w'"
  "tame w (w'\<lparr>next_id := e\<rparr>) = tame w w'" "tame w (w'\<lparr>deleted_sessions := f\<rparr>) = tame w w'"
  "tame (w\<lparr>in_flight := a\<rparr>) w' = tame w w'" "tame (w\<lparr>next_id := e\<rparr>) w' = tame w w'"
  "tame (w\<lparr>status_tasks := d\<rparr>) w' = tame w w'" "tame (w\<lparr>start_tasks := c\<rparr>) w' = tame w w'"
  "tame w (set_task tid t w') = tame w w'" "tame w (set_pending tid w') = tame w w'"
  "tame w (finish_task tid t w') = tame w w'"
  by (simp_all add: tame_def set_task_def set_pending_def finish_task_def)

lemma tame_refl [simp]: "tame w w"
  by (simp add: tame_def)

lemma tame_begin: "handleIdle_begin fl sid w = (c, w') \<Longrightarrow> tame w w'"
  by (auto elim: begin_cases intro: quiet_tame)

lemma tame_processIdle: "tame w (processIdle fl sid w)"
  using tame_begin[of fl sid "w\<lparr>in_flight := (in_flight w)(sid \<mapsto> next_id w), next_id := Suc (next_id w)\<rparr>"]
  by (simp add: processIdle_def Let_def split: option.split prod.split)

lemma tame_continue: "tame w (continue_task fl tid t w)"
  using tame_begin[of fl "t_session t" w] by (simp add: continue_task_def split: prod.split)

lemma tame_deleted: "tame w (session_deleted fl sid w)"
proof -
  obtain s w1 where r: "read_world fl w = (s, w1)" by force
  then have "tame w w1" by (intro quiet_tame quiet_read)
  moreover have "tame w1 (clear_world fl w1)" by (intro quiet_tame quiet_clear)
  ultimately show ?thesis using r
    by (auto simp: session_deleted_def Let_def intro: tame_trans split: option.split)
qed

lemma tame_event: "tame w (handle_event fl type props w)"
  by (simp add: handle_event_def tame_processIdle tame_deleted split: loop_event.split)

lemma tame_status: "tame w (current_status_begin fl w)"
  "tame w (current_status_resume fl tid sid r w)"
proof -
  show "tame w (current_status_begin fl w)"
    using quiet_tame[OF quiet_read[of fl w]]
    by (simp add: current_status_begin_def split: option.split prod.split)
  show "tame w (current_status_resume fl tid sid r w)"
    using tame_processIdle[of "w\<lparr>status_tasks := (status_tasks w)(tid := None)\<rparr>" fl sid]
    by (simp add: current_status_resume_def Let_def split: status_reply.split)
qed

lemma tame_kind: "tame w (step_task tid t (handleIdle_kind fl s r) w)"
  using quiet_tame[OF quiet_clear[of w fl]]
  by (simp add: step_task_def handleIdle_kind_def split: session_kind.split)

lemmas tame_steps = tame_event tame_kind tame_continue tame_status
  quiet_tame[OF stop_quiet] quiet_tame[OF start_begin_quiet]

text \<open>The remaining segments.\<close>

definition saved_run :: "world \<Rightarrow> world \<Rightarrow> loop_state \<Rightarrow> bool" where
  "saved_run w w' s \<longleftrightarrow> prompts w' = prompts w \<and> live w' = Some s
     \<and> (\<exists>d. live w = Some d \<and> sessionID d = sessionID s \<and> runID d = runID s)"

lemma failure_effect:
  "onFailure fl s w = (c, w') \<Longrightarrow> tame w w' \<or> (\<exists>s'. saved_run w w' s')"
  by (erule onFailure_cases) (auto simp: saved_run_def intro: quiet_tame)

lemma prompt_effect:
  "handleIdle_prompt fl s n ok w = (c, w') \<Longrightarrow> tame w w' \<or> (\<exists>s'. saved_run w w' s')"
  by (cases ok) (simp_all add: handleIdle_prompt_def failure_effect)

lemma live_set_task [simp]: "live (set_task tid t w) = live w"
  by (simp add: set_task_def)

lemma prompts_set_task [simp]: "prompts (set_task tid t w) = prompts w"
  by (simp add: set_task_def)

lemma start_reply_effect:
  assumes "loop_start_resume fl st r uuid w = (res, w')"
  shows "tame w w' \<or> prompts w' = prompts w \<and> live w' = Some (new_state st uuid) \<and> sessionKind r = Root"
proof (cases "sessionKind r = Root")
  case False
  with assms have "w' = w" by (auto simp: loop_start_resume_def split: session_kind.splits)
  then show ?thesis by simp
next
  case True
  obtain ok w1 where wr: "write_world fl (new_state st uuid) w = (ok, w1)" by force
  then obtain f where f: "w1 = w\<lparr>disk := f\<rparr>"
    "live w1 = (if ok then if valid_state (new_state st uuid) then Some (new_state st uuid) else None
      else live w)"
    by (rule write_worldE)
  from True assms wr have "w' = w1\<lparr>used_runs := insert uuid (used_runs w1)\<rparr>"
    by (simp add: loop_start_resume_def)
  with True f show ?thesis by (auto simp: tame_def)
qed

lemma tame_restart: "tame w (restart w)"
  by (simp add: tame_def restart_def live_def)

section \<open>What a step can do\<close>

text \<open>Every step of the plugin is tame, saves the run on disk again, sends the next
  continuation of the run on disk, or starts a loop.\<close>

lemma step_effect:
  assumes "loop_step w (act, fl) w'"
  obtains
    (tame) "tame w w'"
  | (saved) s' where "saved_run w w' s'"
  | (prompted) tid t s m d where "act = Messages_reply tid m" "idle_tasks w tid = Some t"
      "t_pc t = Await_messages s" "iteration s < maxIterations s" "live w = Some d"
      "sessionID d = sessionID s" "runID d = runID s"
      "prompts w' = prompts w @ [prompt_of s (iteration s + 1)]"
      "live w' = (if valid_state (s\<lparr>iteration := iteration s + 1, consecutiveFailures := 0\<rparr>)
        then Some (s\<lparr>iteration := iteration s + 1, consecutiveFailures := 0\<rparr>) else None)"
  | (started) tid st r uuid where "act = Start_reply tid r uuid" "start_tasks w tid = Some st"
      "uuid \<notin> used_runs w" "sessionKind r = Root" "prompts w' = prompts w"
      "live w' = Some (new_state st uuid)"
  using assms
proof (cases rule: loop_step.cases)
  case (messages tid t s m)
  note sends = prompted[of tid m t s]
  from messages obtain c w1 where step: "handleIdle_messages fl s m w = (c, w1)"
    "w' = set_task tid (t\<lparr>t_pc := c\<rparr>) w1"
    by (auto simp: step_task_def split: prod.splits)
  from step(1) show thesis
  proof (cases rule: messages_cases)
    case failed
    from failure_effect[OF failed(2)] step(2) tame saved show thesis by (auto simp: saved_run_def)
  next
    case quiet
    with step(2) tame show thesis by (simp add: quiet_tame)
  next
    case (prompted f d n)
    with step(2) have "prompts w' = prompts w @ [prompt_of s (iteration s + 1)]"
      "live w' = (if valid_state (s\<lparr>iteration := iteration s + 1, consecutiveFailures := 0\<rparr>)
        then Some (s\<lparr>iteration := iteration s + 1, consecutiveFailures := 0\<rparr>) else None)"
      by simp_all
    with messages(1,3,4) prompted show thesis by (intro sends[of d]) simp_all
  qed
next
  case (prompt tid t s n ok)
  then obtain c w1 where "handleIdle_prompt fl s n ok w = (c, w1)"
    "w' = set_task tid (t\<lparr>t_pc := c\<rparr>) w1"
    by (auto simp: step_task_def split: prod.splits)
  with prompt_effect[OF this(1)] tame saved show thesis by (auto simp: saved_run_def)
next
  case (start_reply tid st uuid r)
  let ?w = "w\<lparr>start_tasks := (start_tasks w)(tid := None)\<rparr>"
  obtain res w1 where "loop_start_resume fl st r uuid ?w = (res, w1)" by force
  with start_reply_effect[OF this] start_reply tame started show thesis by auto
next
  case (start_answer args sid a)
  then show thesis using tame by (blast intro: tame_steps)
next
  case (start_suspend args sid st w1)
  then have "tame w w1" by (blast intro: tame_steps)
  with start_suspend tame show thesis by simp
qed (use tame tame_steps tame_restart in auto)

end
