(* ===== verification/Loop_Spec.thy ===== *)
theory Loop_Spec
  imports Loop_Effects
begin

text \<open>
  What the loop plugin promises, as an abstract machine without files, handlers, markers,
  awaits or restarts: at most one loop is active, it begins with a new run, advances by
  sending the next continuation, notes a failure, or ends.  The plugin refines this machine,
  every action of the plugin being at most one step of it.
\<close>

section \<open>The abstract machine\<close>

record loop_spec =
  current :: "loop_state option"
  sent_log :: "prompt_call list"
  spec_runs :: "string set"

datatype spec_label = Skips | Begins loop_state | Advances | Fails | Ends loop_state

definition started_as :: "loop_state \<Rightarrow> bool" where
  "started_as s \<longleftrightarrow> iteration s = 0 \<and> consecutiveFailures s = 0
     \<and> MIN_MAX_ITERATIONS \<le> maxIterations s \<and> maxIterations s \<le> MAX_MAX_ITERATIONS"

inductive spec_step :: "loop_spec \<Rightarrow> spec_label \<Rightarrow> loop_spec \<Rightarrow> bool" where
  skips: "R \<subseteq> R' \<Longrightarrow>
    spec_step \<lparr>current = c, sent_log = l, spec_runs = R\<rparr> Skips
      \<lparr>current = c, sent_log = l, spec_runs = R'\<rparr>"
| begins: "runID s \<notin> R \<Longrightarrow> started_as s \<Longrightarrow>
    spec_step \<lparr>current = c, sent_log = l, spec_runs = R\<rparr> (Begins s)
      \<lparr>current = Some s, sent_log = l, spec_runs = insert (runID s) R\<rparr>"
| advances: "iteration s < maxIterations s \<Longrightarrow>
    spec_step \<lparr>current = Some s, sent_log = l, spec_runs = R\<rparr> Advances
      \<lparr>current = Some (s\<lparr>iteration := iteration s + 1, consecutiveFailures := 0\<rparr>),
       sent_log = l @ [prompt_of s (iteration s + 1)], spec_runs = R\<rparr>"
| fails: "0 < n \<Longrightarrow> n < MAX_CONSECUTIVE_FAILURES \<Longrightarrow>
    spec_step \<lparr>current = Some s, sent_log = l, spec_runs = R\<rparr> Fails
      \<lparr>current = Some (s\<lparr>consecutiveFailures := n\<rparr>), sent_log = l, spec_runs = R\<rparr>"
| ends: "R \<subseteq> R' \<Longrightarrow>
    spec_step \<lparr>current = Some s, sent_log = l, spec_runs = R\<rparr> (Ends s)
      \<lparr>current = None, sent_log = l, spec_runs = R'\<rparr>"

inductive_cases spec_stepE: "spec_step a l b"

definition spec_start :: "loop_spec \<Rightarrow> bool" where
  "spec_start a \<longleftrightarrow> a = \<lparr>current = None, sent_log = [], spec_runs = {}\<rparr>"

definition spec_view :: "world \<Rightarrow> loop_spec" where
  "spec_view w = \<lparr>current = live w, sent_log = prompts w, spec_runs = used_runs w\<rparr>"

text \<open>The abstract steps an action of the plugin may stand for.  Only the completion of a
  \<open>loop-start\<close> in a root session begins a loop, only the reply with the messages advances
  one, only the two replies of the client that can report an error note a failure, and an
  event ends a loop only if it announces the deletion of its session.\<close>

fun may :: "action \<times> faults \<Rightarrow> spec_label \<Rightarrow> bool" where
  "may (_, _) Skips = True"
| "may (Start_reply tid r uuid, _) (Begins s) = (sessionKind r = Root \<and> runID s = uuid)"
| "may (Messages_reply tid m, _) Advances = (m \<noteq> Messages_failed)"
| "may (Messages_reply tid m, _) Fails = (m = Messages_failed)"
| "may (Prompt_reply tid ok, _) Fails = (\<not> ok)"
| "may (Kind_reply tid r, _) (Ends s) = (sessionKind r = Missing)"
| "may (Messages_reply tid m, _) (Ends s) = True"
| "may (Prompt_reply tid ok, _) (Ends s) = (\<not> ok)"
| "may (Start_reply tid r uuid, _) (Ends s) = (sessionKind r = Root)"
| "may (Stop, _) (Ends s) = True"
| "may (Event type props, _) (Ends s) = (decode_loop_event type props = Deleted (sessionID s))"
| "may (_, _) _ = False"


section \<open>The plugin's view\<close>

lemma spec_view_update [simp]:
  "spec_view (w\<lparr>in_flight := a\<rparr>) = spec_view w" "spec_view (w\<lparr>idle_tasks := b\<rparr>) = spec_view w"
  "spec_view (w\<lparr>start_tasks := c\<rparr>) = spec_view w" "spec_view (w\<lparr>status_tasks := d\<rparr>) = spec_view w"
  "spec_view (w\<lparr>next_id := e\<rparr>) = spec_view w" "spec_view (w\<lparr>deleted_sessions := f\<rparr>) = spec_view w"
  "spec_view (set_task tid t w) = spec_view w" "spec_view (set_pending tid w) = spec_view w"
  "spec_view (finish_task tid t w) = spec_view w" "spec_view (restart w) = spec_view w"
  by (simp_all add: spec_view_def set_task_def set_pending_def finish_task_def restart_def live_def)

lemma skips_view: "spec_view w' = spec_view w \<Longrightarrow> spec_step (spec_view w) Skips (spec_view w')"
  by (simp add: spec_view_def spec_step.skips)

lemma ends_view:
  "live w = Some s \<Longrightarrow> live w' = None \<Longrightarrow> prompts w' = prompts w \<Longrightarrow> used_runs w \<subseteq> used_runs w' \<Longrightarrow>
   spec_step (spec_view w) (Ends s) (spec_view w')"
  by (simp add: spec_view_def spec_step.ends)

lemma fails_view:
  assumes "live w = Some d" "live w' = Some s'" "s' = d\<lparr>consecutiveFailures := n\<rparr>"
    "0 < n" "n < MAX_CONSECUTIVE_FAILURES" "prompts w' = prompts w" "used_runs w' = used_runs w"
  shows "spec_step (spec_view w) Fails (spec_view w')"
  using assms by (simp add: spec_view_def spec_step.fails)

text \<open>A tame segment skips or ends the loop.\<close>

lemma quiet_view:
  assumes "quiet w w'"
  shows "spec_step (spec_view w) Skips (spec_view w')
    \<or> (\<exists>s. live w = Some s \<and> spec_step (spec_view w) (Ends s) (spec_view w'))"
proof (cases "live w' = live w")
  case True
  with assms show ?thesis by (intro disjI1 skips_view) (simp add: spec_view_def quiet_fields)
next
  case False
  with assms obtain s where "live w = Some s" "live w' = None" by (cases "live w") (auto simp: quiet_def)
  with assms show ?thesis by (auto intro!: ends_view simp: quiet_fields)
qed

lemma read_view: "read_world fl w = (s, w') \<Longrightarrow> s = live w \<and> spec_view w' = spec_view w"
  by (auto elim!: read_worldE simp: spec_view_def)

lemma begin_view: "handleIdle_begin fl sid w = (c, w') \<Longrightarrow> spec_view w' = spec_view w"
  by (auto simp: handleIdle_begin_def dest: read_view split: prod.splits option.splits if_splits)

lemma idle_view: "spec_view (processIdle fl sid w) = spec_view w"
  by (auto simp: processIdle_def Let_def dest: begin_view split: option.split prod.split)

lemma continue_view: "spec_view (continue_task fl tid t w) = spec_view w"
  by (auto simp: continue_task_def dest: begin_view split: prod.split)

lemma status_view:
  "spec_view (current_status_begin fl w) = spec_view w"
  "spec_view (current_status_resume fl tid sid r w) = spec_view w"
  by (auto simp: current_status_begin_def current_status_resume_def Let_def idle_view
      dest: read_view split: prod.split option.split status_reply.split)

lemma start_begin_view: "loop_start_begin fl args sid w = (x, w') \<Longrightarrow> spec_view w' = spec_view w"
  by (auto simp: loop_start_begin_def Let_def dest: read_view
      split: if_splits prod.splits option.splits)

lemmas skipping_views = idle_view continue_view status_view start_begin_view

text \<open>Deleting a session ends its own loop only.\<close>

lemma deleted_view:
  "spec_step (spec_view w) Skips (spec_view (session_deleted fl sid w))
   \<or> (\<exists>s. sessionID s = sid \<and> spec_step (spec_view w) (Ends s) (spec_view (session_deleted fl sid w)))"
proof -
  obtain s w1 where r: "read_world fl w = (s, w1)" by force
  then have w1: "s = live w" "spec_view w1 = spec_view w" by (auto dest: read_view)
  show ?thesis
  proof (cases "\<exists>d. s = Some d \<and> sessionID d = sid")
    case True
    then obtain d where d: "live w = Some d" "sessionID d = sid" using w1 by auto
    have "live w1 = live w" using w1(2) by (simp add: spec_view_def)
    with r d w1 quiet_view[OF quiet_clear[of w1 fl]] show ?thesis
      by (auto simp: session_deleted_def Let_def)
  next
    case False
    with r w1(2) show ?thesis
      by (cases s) (auto simp: session_deleted_def intro!: disjI1 skips_view)
  qed
qed

text \<open>The failure handling, on a state of the run on disk that agrees with it.\<close>

lemma failure_view:
  assumes "onFailure fl s w = (c, w')" "0 \<le> consecutiveFailures s"
    and "\<And>d. live w = Some d \<Longrightarrow> runID d = runID s \<Longrightarrow> \<exists>n. s = d\<lparr>consecutiveFailures := n\<rparr>"
  shows "\<exists>l. l \<in> {Skips, Fails} \<union> range Ends \<and> spec_step (spec_view w) l (spec_view w')"
  using assms(1)
proof (cases rule: onFailure_cases)
  case quiet
  then show ?thesis using quiet_view[of w w'] by blast
next
  case (saved f d)
  then obtain n where "s = d\<lparr>consecutiveFailures := n\<rparr>" using assms(3) by blast
  with saved assms(2) have "spec_step (spec_view w) Fails (spec_view w')"
    by (intro fails_view[where n = "consecutiveFailures s + 1"]) auto
  then show ?thesis by blast
qed

lemma messages_view:
  assumes inv: "loop_inv w" and t: "idle_tasks w tid = Some t" "t_pc t = Await_messages s"
    and step: "handleIdle_messages fl s m w = (c, w')"
  shows "\<exists>l. may (Messages_reply tid m, fl) l \<and> spec_step (spec_view w) l (spec_view w')"
proof -
  have copy: "copy_ok w t" using inv t by (auto simp: loop_inv_def)
  then have s: "valid_state s" "\<And>d. live w = Some d \<Longrightarrow> runID d = runID s \<Longrightarrow> d = s"
    using t by (auto simp: copy_ok_def)
  have own_failures: "\<exists>n. s = d\<lparr>consecutiveFailures := n\<rparr>" if "live w = Some d" "runID d = runID s" for d
    using s(2)[OF that] by (intro exI[of _ "consecutiveFailures s"]) simp
  from step show ?thesis
  proof (cases rule: messages_cases)
    case failed
    obtain l where "l \<in> {Skips, Fails} \<union> range Ends" "spec_step (spec_view w) l (spec_view w')"
      using failure_view[OF failed(2) _ own_failures] s by (auto simp: valid_state_def)
    with failed(1) show ?thesis by (intro exI[of _ l]) auto
  next
    case quiet
    then obtain l where "l \<in> {Skips} \<union> range Ends" "spec_step (spec_view w) l (spec_view w')"
      using quiet_view[of w w'] by blast
    then show ?thesis by (intro exI[of _ l]) auto
  next
    case (prompted f d n)
    from s(2)[OF prompted(5,7)] have "d = s" .
    with prompted s(1) have "spec_step (spec_view w) Advances (spec_view w')"
      using spec_step.advances[of s "prompts w" "used_runs w"]
      by (simp add: spec_view_def valid_state_bump)
    with prompted show ?thesis by (intro exI[of _ Advances]) simp
  qed
qed

lemma prompt_view:
  assumes inv: "loop_inv w" and t: "idle_tasks w tid = Some t" "t_pc t = Await_prompt s n"
    and step: "handleIdle_prompt fl s n ok w = (c, w')"
  shows "\<exists>l. may (Prompt_reply tid ok, fl) l \<and> spec_step (spec_view w) l (spec_view w')"
proof (cases ok)
  case True
  with step show ?thesis by (auto simp: handleIdle_prompt_def intro!: exI[of _ Skips] skips_view)
next
  case False
  have "copy_ok w t" using inv t by (auto simp: loop_inv_def)
  then have s: "valid_state s"
    "\<And>d. live w = Some d \<Longrightarrow> runID d = runID s \<Longrightarrow> d = s\<lparr>iteration := n, consecutiveFailures := 0\<rparr>"
    using t by (auto simp: copy_ok_def)
  have "\<exists>k. s\<lparr>iteration := n\<rparr> = d\<lparr>consecutiveFailures := k\<rparr>"
    if "live w = Some d" "runID d = runID (s\<lparr>iteration := n\<rparr>)" for d
    using s(2)[of d] that by (intro exI[of _ "consecutiveFailures s"]) simp
  moreover have "onFailure fl (s\<lparr>iteration := n\<rparr>) w = (c, w')"
    using step False by (simp add: handleIdle_prompt_def)
  ultimately obtain l where "l \<in> {Skips, Fails} \<union> range Ends" "spec_step (spec_view w) l (spec_view w')"
    using failure_view[of fl "s\<lparr>iteration := n\<rparr>" w c w'] s(1) by (auto simp: valid_state_def)
  with False show ?thesis by (intro exI[of _ l]) auto
qed

text \<open>The completion of a start: a new run, or (with an empty session identifier) a file
  that no read accepts.\<close>

lemma start_view:
  assumes step: "loop_start_resume fl st r uuid w = (res, w')" and uuid: "uuid \<notin> used_runs w"
  shows "\<exists>l. may (Start_reply tid r uuid, fl) l \<and> spec_step (spec_view w) l (spec_view w')"
proof (cases "sessionKind r = Root")
  case False
  with step have "w' = w" by (auto simp: loop_start_resume_def split: session_kind.splits)
  then show ?thesis by (intro exI[of _ Skips]) (simp add: skips_view)
next
  case True
  let ?s = "new_state st uuid"
  obtain ok w1 where wr: "write_world fl ?s w = (ok, w1)" by force
  then obtain f where f: "w1 = w\<lparr>disk := f\<rparr>"
    "live w1 = (if ok then if valid_state ?s then Some ?s else None else live w)"
    by (rule write_worldE)
  have w': "w' = w1\<lparr>used_runs := insert uuid (used_runs w1)\<rparr>"
    using True step wr by (simp add: loop_start_resume_def)
  have fields: "prompts w' = prompts w" "used_runs w' = insert uuid (used_runs w)" "live w' = live w1"
    by (simp_all add: w' f(1))
  consider "ok" "valid_state ?s" | "live w' = live w"
    | s where "live w = Some s" "live w' = None"
    using f(2) fields(3) by (cases ok; cases "valid_state ?s"; cases "live w") auto
  then show ?thesis
  proof cases
    case 1
    then have "started_as ?s" by (simp add: started_as_def new_state_def valid_state_def)
    with 1 f fields uuid have "spec_step (spec_view w) (Begins ?s) (spec_view w')"
      using spec_step.begins[of ?s "used_runs w" "live w" "prompts w"]
      by (simp add: spec_view_def new_state_def)
    with True show ?thesis by (intro exI[of _ "Begins ?s"]) (simp add: new_state_def)
  next
    case 2
    with fields have "spec_step (spec_view w) Skips (spec_view w')"
      using spec_step.skips by (simp add: spec_view_def subset_insertI)
    then show ?thesis by (intro exI[of _ Skips]) simp
  next
    case (3 s)
    with fields True show ?thesis by (intro exI[of _ "Ends s"]) (auto intro!: ends_view)
  qed
qed

section \<open>The refinement\<close>

text \<open>An event ends a loop only by deleting its session, the answer on the kind of a session
  only if there is no such session.\<close>

lemma event_view:
  "\<exists>l. may (Event type props, fl) l \<and> spec_step (spec_view w) l (spec_view (handle_event fl type props w))"
proof (cases "decode_loop_event type props")
  case (Deleted sid)
  then obtain l where "spec_step (spec_view w) l (spec_view (handle_event fl type props w))"
    "l = Skips \<or> (\<exists>s. l = Ends s \<and> sessionID s = sid)"
    using deleted_view[of w fl sid] by (auto simp: handle_event_def)
  with Deleted show ?thesis by (intro exI[of _ l]) auto
qed (auto intro!: exI[of _ Skips] skips_view simp: handle_event_def idle_view)

lemma clear_view: "\<exists>l \<in> {Skips} \<union> range Ends. spec_step (spec_view w) l (spec_view (clear_world fl w))"
  using quiet_view[OF quiet_clear[of w fl]] by blast

lemma kind_view:
  "\<exists>l. may (Kind_reply tid r, fl) l
    \<and> spec_step (spec_view w) l (spec_view (step_task tid t (handleIdle_kind fl s r) w))"
proof (cases "sessionKind r = Missing")
  case True
  then have v: "spec_view (step_task tid t (handleIdle_kind fl s r) w) = spec_view (clear_world fl w)"
    by (simp add: step_task_def handleIdle_kind_def)
  obtain l where "l \<in> {Skips} \<union> range Ends" "spec_step (spec_view w) l (spec_view (clear_world fl w))"
    using clear_view[of w fl] by blast
  with True show ?thesis unfolding v by (intro exI[of _ l]) auto
next
  case False
  then have "spec_view (step_task tid t (handleIdle_kind fl s r) w) = spec_view w"
    by (auto simp: step_task_def handleIdle_kind_def split: session_kind.split)
  then show ?thesis by (intro exI[of _ Skips]) (simp add: skips_view)
qed

lemma permitted_view:
  assumes inv: "loop_inv w" and step: "benign_step w a w'"
  shows "\<exists>l. may a l \<and> spec_step (spec_view w) l (spec_view w')"
proof -
  from step have "loop_step w a w'" by (simp add: benign_step_def)
  then show ?thesis
  proof (cases rule: loop_step.cases)
    case (event type props fl)
    then show ?thesis using event_view by blast
  next
    case (kind tid t s r fl)
    then show ?thesis using kind_view by blast
  next
    case (messages tid t s m fl)
    then show ?thesis
      using messages_view[OF inv, of tid t s fl m] by (auto simp: step_task_def split: prod.split)
  next
    case (prompt tid t s n ok fl)
    then show ?thesis
      using prompt_view[OF inv, of tid t s n fl ok] by (auto simp: step_task_def split: prod.split)
  next
    case (start_reply tid st uuid r fl)
    let ?w = "w\<lparr>start_tasks := (start_tasks w)(tid := None)\<rparr>"
    obtain res where "loop_start_resume fl st r uuid ?w = (res, w')"
      using start_reply(2) by (cases "loop_start_resume fl st r uuid ?w") auto
    from start_view[OF this, of tid] start_reply show ?thesis by simp
  next
    case (stop fl)
    then obtain l where "l \<in> {Skips} \<union> range Ends" "spec_step (spec_view w) l (spec_view w')"
      using quiet_view[OF stop_quiet[of w fl]] by blast
    with stop show ?thesis by (intro exI[of _ l]) auto
  qed (auto intro!: exI[of _ Skips] skips_view dest: start_begin_view simp: skipping_views)
qed

interpretation loop_refinement: refinement_map
  is_init benign_step loop_inv spec_start spec_step spec_view may
proof unfold_locales
  show "spec_start (spec_view w)" if "is_init w" for w
    using that by (auto simp: spec_start_def spec_view_def is_init_def init_world_def live_def loaded_None)
qed (rule permitted_view)

text \<open>The bounds that every loop of the abstract machine keeps carry over to the loop on
  disk.\<close>

definition spec_bounds :: "loop_spec \<Rightarrow> bool" where
  "spec_bounds a \<longleftrightarrow> (\<forall>s. current a = Some s \<longrightarrow>
     0 \<le> iteration s \<and> iteration s \<le> maxIterations s \<and> maxIterations s \<le> MAX_MAX_ITERATIONS
     \<and> 0 \<le> consecutiveFailures s \<and> consecutiveFailures s < MAX_CONSECUTIVE_FAILURES)"

interpretation spec_machine: invariant_of spec_start spec_step spec_bounds
proof unfold_locales
  show "spec_bounds a" if "spec_start a" for a
    using that by (simp add: spec_start_def spec_bounds_def)
  show "spec_bounds b" if "spec_bounds a" "spec_step a l b" for a l b
    using that(2,1)
    by (elim spec_stepE)
       (auto simp: spec_bounds_def started_as_def MIN_MAX_ITERATIONS_def MAX_CONSECUTIVE_FAILURES_def)
qed

lemma live_bounds:
  assumes "reachable is_init benign_step w" "live w = Some s"
  shows "0 \<le> iteration s" "iteration s \<le> maxIterations s" "maxIterations s \<le> MAX_MAX_ITERATIONS"
    "0 \<le> consecutiveFailures s" "consecutiveFailures s < MAX_CONSECUTIVE_FAILURES"
  using spec_machine.inv_reachable[OF loop_refinement.reachable_refines[OF assms(1)]] assms(2)
  by (simp_all add: spec_bounds_def spec_view_def)



end
