(* ===== verification/Loop_Rounds.thy ===== *)
theory Loop_Rounds
  imports Loop_Exec
begin

text \<open>
  What an idle event comes to when nothing interferes with its handler, on every branch: a
  round of the loop as a function on the loop's state alone, and what sequences of rounds do.
\<close>

section \<open>A round on the state\<close>

definition bumped :: "loop_state \<Rightarrow> loop_state" where
  "bumped d = d\<lparr>iteration := iteration d + 1, consecutiveFailures := 0\<rparr>"

text \<open>A failure is counted, or it is the last one.\<close>

definition failed_once :: "loop_state \<Rightarrow> loop_state option" where
  "failed_once d =
     (if consecutiveFailures d + 1 \<ge> MAX_CONSECUTIVE_FAILURES then None
      else Some (d\<lparr>consecutiveFailures := consecutiveFailures d + 1\<rparr>))"

text \<open>What a root session's messages lead to: the loop afterwards and the prompt sent, where
  the flag says whether the server takes the prompt.\<close>

definition settle_messages ::
  "loop_state \<Rightarrow> messages_reply \<Rightarrow> bool \<Rightarrow> loop_state option \<times> prompt_call list" where
  "settle_messages d m ok =
     (case m of
        Messages_failed \<Rightarrow> (failed_once d, [])
      | Rows rows \<Rightarrow>
          (case lastAssistantText rows of
             None \<Rightarrow> (Some d, [])
           | Some text \<Rightarrow>
               if matchesSentinel text (sentinel d) \<or> iteration d \<ge> maxIterations d then (None, [])
               else (if ok then Some (bumped d) else failed_once (d\<lparr>iteration := iteration d + 1\<rparr>),
                     [prompt_of d (iteration d + 1)])))"

record round_answers =
  kind_answer :: reply
  rows_answer :: messages_reply
  prompt_taken :: bool

definition settle ::
  "string \<Rightarrow> loop_state option \<Rightarrow> round_answers \<Rightarrow> loop_state option \<times> prompt_call list" where
  "settle sid l A =
     (case l of
        None \<Rightarrow> (None, [])
      | Some d \<Rightarrow>
          if sessionID d \<noteq> sid then (Some d, [])
          else (case sessionKind (kind_answer A) of
              Missing \<Rightarrow> (None, [])
            | Root \<Rightarrow> settle_messages d (rows_answer A) (prompt_taken A)
            | _ \<Rightarrow> (Some d, [])))"

section \<open>An undisturbed handler\<close>

fun awaited :: "round_answers \<Rightarrow> nat \<Rightarrow> pc \<Rightarrow> action" where
  "awaited A tid (Await_kind s) = Kind_reply tid (kind_answer A)"
| "awaited A tid (Await_messages s) = Messages_reply tid (rows_answer A)"
| "awaited A tid (Await_prompt s n) = Prompt_reply tid (prompt_taken A)"
| "awaited A tid _ = Continue tid"

text \<open>Drive a handler to its end without faults, in fewer steps than the fuel.\<close>

fun finish :: "round_answers \<Rightarrow> nat \<Rightarrow> nat \<Rightarrow> world \<Rightarrow> world option" where
  "finish A tid 0 w = None"
| "finish A tid (Suc n) w =
     (case idle_tasks w tid of
        None \<Rightarrow> Some w
      | Some t \<Rightarrow> Option.bind (do_action w (awaited A tid (t_pc t), no_faults)) (finish A tid n))"

definition answered_round :: "string \<Rightarrow> round_answers \<Rightarrow> world \<Rightarrow> world option" where
  "answered_round sid A w =
     Option.bind (do_action w (idle_event sid, no_faults)) (finish A (next_id w) 5)"

section \<open>The segments of the handler on the state\<close>

lemma read_live: "live w = Some d \<Longrightarrow> read_world fl w = (Some d, w)"
  by (auto simp: live_def loaded_def readState_def read_world_def
      split: option.splits content.splits sum.splits)

lemma ours_live:
  "live w = Some d \<Longrightarrow> sessionID d = sessionID s \<Longrightarrow> runID d = runID s \<Longrightarrow>
   stateStillOurs fl s w = (True, w)"
  by (simp add: stateStillOurs_def read_live)

lemma clear_quietly: "\<exists>f. clear_world no_faults w = w\<lparr>disk := f\<rparr> \<and> live (w\<lparr>disk := f\<rparr>) = None"
  by (rule clear_worldE[of no_faults w]) (auto simp: no_faults_def)

lemma write_quietly:
  "valid_state s \<Longrightarrow> \<exists>f. write_world no_faults s w = (True, w\<lparr>disk := f\<rparr>) \<and> live (w\<lparr>disk := f\<rparr>) = Some s"
proof -
  assume v: "valid_state s"
  obtain f where f: "write_world no_faults s w = (True, w\<lparr>disk := f\<rparr>)"
    by (auto simp: write_world_def writeStateTo_def no_faults_def)
  with v show ?thesis by (auto elim!: write_worldE)
qed

lemma begin_live:
  "\<exists>f. handleIdle_begin fl sid w =
     ((case live w of None \<Rightarrow> Finished | Some d \<Rightarrow> if sessionID d \<noteq> sid then Finished else Await_kind d),
      w\<lparr>disk := f\<rparr>) \<and> live (w\<lparr>disk := f\<rparr>) = live w"
proof -
  obtain s w1 where r: "read_world fl w = (s, w1)" by force
  then obtain f where "s = live w" "w1 = w\<lparr>disk := f\<rparr>" "live w1 = live w" by (rule read_worldE)
  with r show ?thesis by (auto simp: handleIdle_begin_def split: option.split)
qed

lemma valid_failed: "valid_state s \<Longrightarrow> failed_once s = Some s' \<Longrightarrow> valid_state s'"
  by (auto simp: failed_once_def valid_state_def split: if_splits)

text \<open>A failure of the handler that holds \<open>s\<close>, while the loop on disk is still this run.\<close>

lemma failure_live:
  assumes "live w = Some d" "sessionID d = sessionID s" "runID d = runID s" "valid_state s"
  shows "\<exists>f. onFailure no_faults s w = (Finished, w\<lparr>disk := f\<rparr>) \<and> live (w\<lparr>disk := f\<rparr>) = failed_once s"
proof (cases "failed_once s")
  case None
  with clear_quietly[of w] show ?thesis by (auto simp: onFailure_def failed_once_def split: if_splits)
next
  case (Some s')
  from write_quietly[OF valid_failed[OF assms(4) Some], of w] Some show ?thesis
    by (auto simp: onFailure_def failed_once_def ours_live[OF assms(1-3)] split: if_splits)
qed

lemma valid_bumped: "valid_state d \<Longrightarrow> valid_state (bumped d)"
  by (simp add: bumped_def valid_state_bump)

lemma messages_live:
  assumes "live w = Some d"
  obtains (ends) f where "handleIdle_messages no_faults d m w = (Finished, w\<lparr>disk := f\<rparr>)"
      "settle_messages d m ok = (live (w\<lparr>disk := f\<rparr>), [])"
  | (sends) f where "handleIdle_messages no_faults d m w = (Await_prompt d (iteration d + 1),
        w\<lparr>disk := f, prompts := prompts w @ [prompt_of d (iteration d + 1)]\<rparr>)"
      "live (w\<lparr>disk := f\<rparr>) = Some (bumped d)"
      "settle_messages d m ok = (if ok then Some (bumped d) else failed_once (d\<lparr>iteration := iteration d + 1\<rparr>),
        [prompt_of d (iteration d + 1)])"
proof (cases m)
  case Messages_failed
  from failure_live[OF assms refl refl live_valid[OF assms]] obtain f where
    "onFailure no_faults d w = (Finished, w\<lparr>disk := f\<rparr>)" "live (w\<lparr>disk := f\<rparr>) = failed_once d" by blast
  with Messages_failed ends show thesis by (simp add: handleIdle_messages_def settle_messages_def)
next
  case (Rows rows)
  show thesis
  proof (cases "lastAssistantText rows")
    case None
    with Rows assms ends[of "disk w"] show thesis by (simp add: handleIdle_messages_def settle_messages_def)
  next
    case (Some msg)
    from clear_quietly[of w] obtain f where f: "clear_world no_faults w = w\<lparr>disk := f\<rparr>"
      "live (w\<lparr>disk := f\<rparr>) = None" by blast
    from write_quietly[OF valid_bumped[OF live_valid[OF assms]], of w] obtain g where
      g: "write_world no_faults (bumped d) w = (True, w\<lparr>disk := g\<rparr>)" "live (w\<lparr>disk := g\<rparr>) = Some (bumped d)"
      by blast
    show thesis
    proof (cases "matchesSentinel msg (sentinel d) \<or> iteration d \<ge> maxIterations d")
      case True
      with Rows Some f ends show thesis by (auto simp: handleIdle_messages_def settle_messages_def)
    next
      case False
      with Rows Some g sends ours_live[OF assms refl refl] show thesis
        by (simp add: handleIdle_messages_def settle_messages_def Let_def bumped_def)
    qed
  qed
qed

section \<open>Driving the handler\<close>

text \<open>A handler at its first pass, to which no further idle event came.\<close>

definition task_at :: "string \<Rightarrow> pc \<Rightarrow> idle_task" where
  "task_at sid c = \<lparr>t_session = sid, t_rerun = False, t_pending = False, t_pc = c\<rparr>"

text \<open>The handler ends, with this loop and these prompts, and leaves no marker.\<close>

definition settles ::
  "round_answers \<Rightarrow> nat \<Rightarrow> nat \<Rightarrow> string \<Rightarrow> world \<Rightarrow> loop_state option \<times> prompt_call list \<Rightarrow> bool" where
  "settles A tid n sid w r \<longleftrightarrow>
     (\<exists>w'. finish A tid n w = Some w' \<and> live w' = fst r \<and> prompts w' = prompts w @ snd r
       \<and> in_flight w' = (in_flight w)(sid := None) \<and> idle_tasks w' = (idle_tasks w)(tid := None))"

lemma settles_ended:
  "idle_tasks w tid = Some (task_at sid Finished) \<Longrightarrow> settles A tid (Suc (Suc n)) sid w (live w, [])"
  by (simp add: settles_def task_at_def continue_task_def finish_task_def live_def)

lemma settles_step:
  assumes t: "idle_tasks w tid = Some (task_at sid c)"
    and a: "do_action w (awaited A tid c, no_faults) = Some (step_task tid (task_at sid c) h w)"
    and h: "h w = (c', w\<lparr>disk := f, prompts := prompts w @ qs\<rparr>)"
    and r: "settles A tid n sid (set_task tid (task_at sid c') (w\<lparr>disk := f, prompts := prompts w @ qs\<rparr>)) (l, ps)"
  shows "settles A tid (Suc n) sid w (l, qs @ ps)"
proof -
  have "(task_at sid c)\<lparr>t_pc := c'\<rparr> = task_at sid c'" "t_pc (task_at sid c) = c" by (simp_all add: task_at_def)
  with r t a h show ?thesis by (simp add: settles_def step_task_def set_task_def)
qed

lemma settles_last:
  assumes "idle_tasks w tid = Some (task_at sid c)"
    and "do_action w (awaited A tid c, no_faults) = Some (step_task tid (task_at sid c) h w)"
    and "h w = (Finished, w\<lparr>disk := f\<rparr>)"
  shows "settles A tid (Suc (Suc (Suc n))) sid w (live (w\<lparr>disk := f\<rparr>), [])"
proof -
  let ?w = "set_task tid (task_at sid Finished) (w\<lparr>disk := f, prompts := prompts w @ []\<rparr>)"
  have "live ?w = live (w\<lparr>disk := f\<rparr>)" by (simp add: set_task_def live_def)
  moreover have "settles A tid (Suc (Suc n)) sid ?w (live ?w, [])"
    by (rule settles_ended) (simp add: set_task_def)
  ultimately show ?thesis using settles_step[OF assms(1,2), where c' = Finished and f = f and qs = "[]"] assms(3) by simp
qed

lemma prompt_settles:
  assumes "idle_tasks w tid = Some (task_at sid (Await_prompt d (iteration d + 1)))"
    and "live w = Some (bumped d)" "valid_state d"
  shows "settles A tid (Suc (Suc (Suc n))) sid w
    (if prompt_taken A then Some (bumped d) else failed_once (d\<lparr>iteration := iteration d + 1\<rparr>), [])"
proof -
  let ?c = "Await_prompt d (iteration d + 1)" and ?s = "d\<lparr>iteration := iteration d + 1\<rparr>"
    and ?h = "handleIdle_prompt no_faults d (iteration d + 1) (prompt_taken A)"
  have a: "do_action w (awaited A tid ?c, no_faults) = Some (step_task tid (task_at sid ?c) ?h w)"
    using assms(1) by (simp add: task_at_def)
  have "valid_state ?s" using assms(3) by (simp add: valid_state_def)
  from failure_live[OF assms(2) _ _ this] obtain f where f: "onFailure no_faults ?s w = (Finished, w\<lparr>disk := f\<rparr>)"
    "live (w\<lparr>disk := f\<rparr>) = failed_once ?s" by (auto simp: bumped_def)
  show ?thesis
  proof (cases "prompt_taken A")
    case True
    then have "?h w = (Finished, w\<lparr>disk := disk w\<rparr>)" by (simp add: handleIdle_prompt_def)
    from settles_last[OF assms(1) a this] True assms(2) show ?thesis by simp
  next
    case False
    then have "?h w = (Finished, w\<lparr>disk := f\<rparr>)" using f by (simp add: handleIdle_prompt_def)
    from settles_last[OF assms(1) a this] False f(2) show ?thesis by simp
  qed
qed

lemma messages_settles:
  assumes "idle_tasks w tid = Some (task_at sid (Await_messages d))" "live w = Some d"
  shows "settles A tid (Suc (Suc (Suc (Suc n)))) sid w (settle_messages d (rows_answer A) (prompt_taken A))"
proof -
  let ?h = "handleIdle_messages no_faults d (rows_answer A)"
  have a: "do_action w (awaited A tid (Await_messages d), no_faults)
      = Some (step_task tid (task_at sid (Await_messages d)) ?h w)"
    using assms(1) by (simp add: task_at_def)
  from assms(2) show ?thesis
  proof (cases rule: messages_live[where m = "rows_answer A" and ok = "prompt_taken A"])
    case (ends f)
    from settles_last[OF assms(1) a ends(1), of "Suc n"] ends(2) show ?thesis by simp
  next
    case (sends f)
    let ?c = "Await_prompt d (iteration d + 1)" and ?p = "prompt_of d (iteration d + 1)"
    let ?w = "set_task tid (task_at sid ?c) (w\<lparr>disk := f, prompts := prompts w @ [?p]\<rparr>)"
    have "settles A tid (Suc (Suc (Suc n))) sid ?w
        (if prompt_taken A then Some (bumped d) else failed_once (d\<lparr>iteration := iteration d + 1\<rparr>), [])"
      by (rule prompt_settles) (use sends(2) live_valid[OF assms(2)] in \<open>simp_all add: set_task_def live_def\<close>)
    from settles_step[OF assms(1) a sends(1) this] sends(3) show ?thesis by simp
  qed
qed

lemma kind_settles:
  assumes "idle_tasks w tid = Some (task_at sid (Await_kind d))" "live w = Some d" "sessionID d = sid"
  shows "settles A tid (Suc (Suc (Suc (Suc (Suc n))))) sid w (settle sid (Some d) A)"
proof -
  let ?h = "handleIdle_kind no_faults d (kind_answer A)"
  have a: "do_action w (awaited A tid (Await_kind d), no_faults)
      = Some (step_task tid (task_at sid (Await_kind d)) ?h w)"
    using assms(1) by (simp add: task_at_def)
  from clear_quietly[of w] obtain f where f: "clear_world no_faults w = w\<lparr>disk := f\<rparr>"
    "live (w\<lparr>disk := f\<rparr>) = None" by blast
  have stays: "settles A tid (Suc (Suc (Suc (Suc (Suc n))))) sid w (Some d, [])"
    if "?h w = (Finished, w\<lparr>disk := disk w\<rparr>)"
    using settles_last[OF assms(1) a that, of "Suc (Suc n)"] assms(2) by simp
  show ?thesis
  proof (cases "sessionKind (kind_answer A)")
    case Missing
    then have "?h w = (Finished, w\<lparr>disk := f\<rparr>)" using f by (simp add: handleIdle_kind_def)
    from settles_last[OF assms(1) a this, of "Suc (Suc n)"] f(2) Missing assms(3) show ?thesis
      by (simp add: settle_def)
  next
    case Root
    let ?w = "set_task tid (task_at sid (Await_messages d)) (w\<lparr>disk := disk w, prompts := prompts w @ []\<rparr>)"
    have "settles A tid (Suc (Suc (Suc (Suc n)))) sid ?w (settle_messages d (rows_answer A) (prompt_taken A))"
      by (rule messages_settles) (use assms(2) in \<open>simp_all add: set_task_def live_def\<close>)
    then have "settles A tid (Suc (Suc (Suc (Suc (Suc n))))) sid w
        (fst (settle_messages d (rows_answer A) (prompt_taken A)),
         [] @ snd (settle_messages d (rows_answer A) (prompt_taken A)))"
      using Root by (intro settles_step[OF assms(1) a, where f = "disk w" and c' = "Await_messages d"])
        (simp_all add: handleIdle_kind_def)
    with Root assms(3) show ?thesis by (simp add: settle_def)
  qed (use stays assms(3) in \<open>simp_all add: settle_def handleIdle_kind_def\<close>)
qed

lemma round_settles:
  assumes "in_flight w sid = None" "sid \<noteq> []"
  shows "\<exists>w'. answered_round sid A w = Some w' \<and> live w' = fst (settle sid (live w) A)
    \<and> prompts w' = prompts w @ snd (settle sid (live w) A)
    \<and> in_flight w' = in_flight w \<and> idle_tasks w' = (idle_tasks w)(next_id w := None)"
proof -
  let ?w = "w\<lparr>in_flight := (in_flight w)(sid \<mapsto> next_id w), next_id := Suc (next_id w)\<rparr>"
  define c where "c = (case live w of None \<Rightarrow> Finished
    | Some d \<Rightarrow> if sessionID d \<noteq> sid then Finished else Await_kind d)"
  have "live ?w = live w" by simp
  from begin_live[of no_faults sid ?w, unfolded this, folded c_def] obtain f where b:
    "handleIdle_begin no_faults sid ?w = (c, ?w\<lparr>disk := f\<rparr>)" "live (?w\<lparr>disk := f\<rparr>) = live w" by blast
  let ?v = "set_task (next_id w) (task_at sid c) (?w\<lparr>disk := f\<rparr>)"
  have v: "idle_tasks ?v (next_id w) = Some (task_at sid c)" "live ?v = live w"
    using b(2) by (simp_all add: set_task_def live_def)
  have "settles A (next_id w) (Suc (Suc (Suc (Suc (Suc 0))))) sid ?v (settle sid (live w) A)"
  proof (cases "\<exists>d. live w = Some d \<and> sessionID d = sid")
    case True
    then obtain d where "live w = Some d" "sessionID d = sid" by blast
    with kind_settles[of ?v "next_id w" sid d A 0] v show ?thesis by (simp add: c_def)
  next
    case False
    then have "c = Finished" "settle sid (live w) A = (live w, [])"
      by (auto simp: settle_def c_def split: option.splits)
    with settles_ended[of ?v "next_id w" sid A] v show ?thesis by simp
  qed
  moreover have "do_action w (idle_event sid, no_faults) = Some ?v"
    using assms b(1) by (simp add: idle_event_def decode_idle_event handle_event_def processIdle_def Let_def
        task_at_def)
  ultimately show ?thesis
    using assms(1) by (simp add: answered_round_def settles_def set_task_def numeral_eq_Suc fun_upd_idem
        del: finish.simps do_action.simps)
qed

text \<open>C6: A round of the loop, on every branch.  An idle event whose handler nothing
  disturbs ends within five steps, and the loop on disk and the prompts sent are those of
  \<open>settle\<close>: nothing happens without a loop of this session, for a subagent or an unknown
  session, or without an assistant's text; a missing session, the sentinel and the iteration
  limit end the loop; unreadable messages and a refused prompt count as a failure, the third
  of which ends it; otherwise the next continuation is sent and counted.\<close>

theorem idle_round_outcome:
  assumes "in_flight w sid = None" and "sid \<noteq> []"
  shows "\<exists>w'. answered_round sid A w = Some w' \<and> live w' = fst (settle sid (live w) A)
    \<and> prompts w' = prompts w @ snd (settle sid (live w) A)
    \<and> in_flight w' = in_flight w \<and> idle_tasks w' = (idle_tasks w)(next_id w := None)"
  by (rule round_settles[OF assms])

text \<open>A round whose prompt the server refuses: the continuation is counted, and so is the
  failure.\<close>

definition refused_round :: round_answers where
  "refused_round = \<lparr>kind_answer = root_reply, rows_answer = says ''a'', prompt_taken = False\<rparr>"

theorem idle_round_outcome_witness:
  "\<exists>w w'. live w = Some (sample_state 2) \<and> answered_round ''s'' refused_round w = Some w'
     \<and> live w' = Some ((sample_state 2)\<lparr>iteration := 1, consecutiveFailures := 1\<rparr>)
     \<and> prompts w' = [prompt_of (sample_state 2) 1]"
proof -
  have "trial (\<lambda>w w'. (live w', in_flight w' ''s'', prompts w')) [sample_start ''s'' 2]
      (Start_reply 0 root_reply ''r'') = Some (Some (sample_state 2), None, [])"
    by code_simp
  from trial_step[OF this] obtain w where w: "live w = Some (sample_state 2)"
    "in_flight w ''s'' = None" "prompts w = []"
    by auto
  have "settle ''s'' (Some (sample_state 2)) refused_round =
      (Some ((sample_state 2)\<lparr>iteration := 1, consecutiveFailures := 1\<rparr>), [prompt_of (sample_state 2) 1])"
    by code_simp
  with idle_round_outcome[OF w(2), of refused_round] w(1,3) show ?thesis by auto
qed

section \<open>Sequences of rounds\<close>



fun settle_all ::
  "string \<Rightarrow> messages_reply list \<Rightarrow> loop_state option \<Rightarrow> loop_state option \<times> prompt_call list" where
  "settle_all sid [] l = (l, [])"
| "settle_all sid (m # ms) l =
     (let (l1, ps) = settle sid l \<lparr>kind_answer = root_reply, rows_answer = m, prompt_taken = True\<rparr>;
          (l2, qs) = settle_all sid ms l1
      in (l2, ps @ qs))"


lemma root_reply_root [simp]: "sessionKind root_reply = Root"
  by code_simp

lemma settle_none [simp]: "settle sid None A = (None, [])"
  by (simp add: settle_def)

lemma settle_all_none [simp]: "settle_all sid ms None = (None, [])"
  by (induction ms) simp_all

section \<open>Loops end\<close>

definition unfinished :: "loop_state \<Rightarrow> messages_reply \<Rightarrow> bool" where
  "unfinished d m = (case m of
       Rows rows \<Rightarrow> (case lastAssistantText rows of
           Some text \<Rightarrow> \<not> matchesSentinel text (sentinel d) | None \<Rightarrow> False)
     | Messages_failed \<Rightarrow> False)"

lemma bumped_fields [simp]:
  "sessionID (bumped d) = sessionID d" "maxIterations (bumped d) = maxIterations d"
  "iteration (bumped d) = iteration d + 1" "unfinished (bumped d) = unfinished d"
  "prompt_of (bumped d) = prompt_of d" "sentinel (bumped d) = sentinel d"
  by (simp_all add: bumped_def unfinished_def prompt_of_def buildContinuation_def fun_eq_iff
      split: messages_reply.split option.split)





section \<open>Failures\<close>





end
