(* ===== verification/Loop_Props.thy ===== *)
theory Loop_Props
  imports Loop_Effects Loop_Rounds
begin

text \<open>
  The properties of the loop plugin, over every interleaving of its event handlers, tool
  calls and client replies.
\<close>

section \<open>Continuations are numbered\<close>

text \<open>C1: Continuations are numbered.  In every reachable state of the plugin, under every
  interleaving of handlers, tool calls, restarts and replies, the continuation prompts sent
  for one run carry the iterations 1, 2, 3 and so on, in order, none twice and none skipped,
  and none above the limit the run was started with.\<close>

theorem continuations_numbered:
  assumes "reachable is_init benign_step w"
  shows "labels r w = [1..int (length (labels r w))]
    \<and> (\<forall>c \<in> set (prompts w). p_label c \<le> p_max c)"
  using loop_machine.inv_reachable[OF assms] by (simp add: loop_inv_def prompt_inv_def)

theorem continuations_numbered_witness:
  "\<exists>w. reachable is_init benign_step w \<and> labels ''r'' w = [1, 2]
     \<and> labels ''r'' w = [1..int (length (labels ''r'' w))]"
proof -
  let ?acts = "quietly ([sample_start ''s'' 2, Start_reply 0 root_reply ''r'']
    @ busy_round ''s'' 1 @ busy_round ''s'' 2)"
  have "map_option (labels ''r'') (do_benign (init_world ''/p'') ?acts) = Some [1, 2]"
    by code_simp
  then obtain w where w: "do_benign (init_world ''/p'') ?acts = Some w" "labels ''r'' w = [1, 2]"
    by blast
  then have "reachable is_init benign_step w" by (blast intro: do_benign_init)
  with continuations_numbered[OF this, of "''r''"] w show ?thesis by blast
qed


section \<open>What one step can do to the loop\<close>

text \<open>C19: Only \<open>loop-start\<close> creates a loop.  Whatever a step does, in whatever state:
  if a loop is active after it, then either the same run of the same session was active
  before, or the step is the completion of a \<open>loop-start\<close> whose session was verified to be
  a root session, and the loop is at iteration 0.  So a handler that wakes up late never
  resurrects a stopped loop and never moves a loop to another session.\<close>

theorem only_start_creates:
  assumes "loop_step w (act, fl) w'" and "live w' = Some s'"
  shows "(\<exists>s. live w = Some s \<and> sessionID s = sessionID s' \<and> runID s = runID s')
    \<or> (\<exists>tid st r uuid. act = Start_reply tid r uuid \<and> start_tasks w tid = Some st
         \<and> sessionKind r = Root \<and> uuid \<notin> used_runs w \<and> s' = new_state st uuid)"
  using assms(1)
proof (cases rule: step_effect)
  case tame
  then show ?thesis using assms(2) by (auto dest: tame_live)
next
  case (saved s)
  then show ?thesis using assms(2) by (auto simp: saved_run_def)
next
  case (prompted tid t s m d)
  then show ?thesis using assms(2) by (auto split: if_splits)
next
  case (started tid st r uuid)
  then show ?thesis using assms(2) by auto
qed


theorem only_start_creates_witness:
  "\<exists>w w' s'. loop_step w (Start_reply 0 root_reply ''r'', no_faults) w' \<and> live w' = Some s'
     \<and> ((\<exists>s. live w = Some s \<and> sessionID s = sessionID s' \<and> runID s = runID s')
    \<or> (\<exists>tid st r uuid. Start_reply 0 root_reply ''r'' = Start_reply tid r uuid
         \<and> start_tasks w tid = Some st
         \<and> sessionKind r = Root \<and> uuid \<notin> used_runs w \<and> s' = new_state st uuid))"
proof -
  have "trial (\<lambda>w. live) [sample_start ''s'' 2] (Start_reply 0 root_reply ''r'') = Some (Some (sample_state 2))"
    by code_simp
  from trial_step[OF this] obtain w w' where
    "loop_step w (Start_reply 0 root_reply ''r'', no_faults) w'" "live w' = Some (sample_state 2)"
    by (auto simp: benign_step_def)
  with only_start_creates[OF this] show ?thesis by metis
qed

lemma step_prompts:
  assumes inv: "loop_inv w" and "benign_step w (act, fl) w'"
  shows "prompts w' = prompts w \<or>
    (\<exists>d n. live w = Some d \<and> n = iteration d + 1 \<and> n \<le> maxIterations d
       \<and> sessionID d \<notin> deleted_sessions w \<and> prompts w' = prompts w @ [prompt_of d n]
       \<and> live w' = Some (d\<lparr>iteration := n, consecutiveFailures := 0\<rparr>))"
proof -
  from assms(2) have "loop_step w (act, fl) w'" by (simp add: benign_step_def)
  then show ?thesis
  proof (cases rule: step_effect)
    case (prompted tid t s m d)
    have "copy_ok w t" using inv prompted(2) by (auto simp: loop_inv_def)
    with prompted have "d = s" "valid_state s" by (auto simp: copy_ok_def)
    moreover have "sessionID d \<notin> deleted_sessions w"
      using inv prompted(5) by (auto simp: loop_inv_def live_inv_def)
    ultimately show ?thesis using prompted by (auto simp: valid_state_bump)
  qed (auto simp: tame_def saved_run_def)
qed

text \<open>C2: The iteration is written ahead of the prompt.  In a reachable state a step sends
  at most one continuation, only while the loop on disk is active and below its limit, with
  the number after the one on disk, to the session of that loop (never a deleted one); and
  when the prompt is sent, the increased iteration is already on disk, so a crash or a
  restart during the prompt cannot send the same number again.\<close>

theorem prompt_write_ahead:
  assumes "reachable is_init benign_step w" and "benign_step w (act, fl) w'"
  shows "prompts w' = prompts w \<or>
    (\<exists>d n. live w = Some d \<and> n = iteration d + 1 \<and> n \<le> maxIterations d
       \<and> sessionID d \<notin> deleted_sessions w \<and> prompts w' = prompts w @ [prompt_of d n]
       \<and> live w' = Some (d\<lparr>iteration := n, consecutiveFailures := 0\<rparr>))"
  by (rule step_prompts[OF loop_machine.inv_reachable[OF assms(1)] assms(2)])

theorem prompt_write_ahead_witness:
  "\<exists>w act w'. reachable is_init benign_step w \<and> benign_step w (act, no_faults) w'
     \<and> prompts w' \<noteq> prompts w
     \<and> (\<exists>d n. live w = Some d \<and> prompts w' = prompts w @ [prompt_of d n])"
proof -
  have "trial (\<lambda>w w'. (length (prompts w), length (prompts w')))
      (fresh_loop 2 @ [idle_event ''s'', Kind_reply 1 root_reply])
      (Messages_reply 1 (says ''not yet'')) = Some (0, 1)"
    by code_simp
  from trial_step[OF this] obtain w act w' where
    w: "reachable is_init benign_step w" "benign_step w (act, no_faults) w'"
      "length (prompts w) = 0" "length (prompts w') = 1"
    by auto
  with prompt_write_ahead[OF w(1,2)] show ?thesis by (metis zero_neq_one)
qed


section \<open>Handlers and markers\<close>

text \<open>C29: One handler per session.  In every reachable state two suspended handlers of the
  same session are the same handler, unless the session has been deleted: idle events that
  arrive while a handler runs never start a second one.\<close>

theorem single_handler:
  assumes "reachable is_init benign_step w"
    and "idle_tasks w i = Some t" and "idle_tasks w j = Some u"
    and "t_session t = t_session u" and "t_session t \<notin> deleted_sessions w"
  shows "i = j"
  using marker_unique[OF loop_machine.inv_reachable[OF assms(1)] assms(3,2)] assms by simp

theorem single_handler_witness:
  "\<exists>w t. reachable is_init benign_step w \<and> idle_tasks w 1 = Some t
     \<and> t_session t \<notin> deleted_sessions w
     \<and> (\<forall>j u. idle_tasks w j = Some u \<and> t_session u = t_session t \<longrightarrow> j = 1)"
proof -
  have "trial (\<lambda>w w'. (map_option t_session (idle_tasks w' 1), deleted_sessions w'))
      (fresh_loop 2 @ [idle_event ''s'']) (idle_event ''s'') = Some (Some ''s'', {})"
    by code_simp
  from trial_step[OF this] obtain w w' t where
    "reachable is_init benign_step w" "benign_step w (idle_event ''s'', no_faults) w'"
    "idle_tasks w' 1 = Some t" "t_session t = ''s''" "deleted_sessions w' = {}"
    by auto
  moreover from this have "reachable is_init benign_step w'" by (blast intro: reachable.step)
  ultimately show ?thesis using single_handler by (metis emptyE)
qed

section \<open>Late handlers\<close>




text \<open>A failed lookup counts as a root session.  A client call that answers with an
  error value instead of throwing leaves no data; the session is then taken for an operator
  session, and the handler goes on to send a prompt.\<close>

theorem unanswered_lookup_prompts:
  "sessionKind (Returned JUndef) = Root
   \<and> trial (\<lambda>w w'. map p_label (prompts w'))
       (fresh_loop 2 @ [idle_event ''s'', Kind_reply 1 (Returned JUndef)])
       (Messages_reply 1 (says ''not yet'')) = Some [1]"
proof
  show "sessionKind (Returned JUndef) = Root" by (simp add: sessionKind_def)
  show "trial (\<lambda>w w'. map p_label (prompts w'))
       (fresh_loop 2 @ [idle_event ''s'', Kind_reply 1 (Returned JUndef)])
       (Messages_reply 1 (says ''not yet'')) = Some [1]"
    by code_simp
qed


section \<open>The state file\<close>

text \<open>C18: Writing is atomic and reading validates.  Whatever call of a write fails, a later
  read returns the old or the new state, and the new one if the write succeeded; what a read
  returns always satisfies the schema, and a file that does not is removed.\<close>

theorem state_file_atomic:
  assumes "valid_state s"
  shows "fst (readState ok p (snd (writeStateTo fault p s f))) \<in> {fst (readState ok p f), Some s}
    \<and> (fault = Write_ok \<longrightarrow> readState ok p (snd (writeStateTo fault p s f))
          = (Some s, snd (writeStateTo fault p s f)))
    \<and> (\<forall>s'. fst (readState ok p f) = Some s' \<longrightarrow> valid_state s' \<and> snd (readState ok p f) = f)
    \<and> (fst (readState True p f) = None \<longrightarrow> snd (readState True p f) p = None)"
proof (intro conjI impI allI)
  show "fst (readState ok p (snd (writeStateTo fault p s f))) \<in> {fst (readState ok p f), Some s}"
    using state_file.save_atomic[OF assms] by (simp add: readState_fst)
  show "readState ok p (snd (writeStateTo fault p s f)) = (Some s, snd (writeStateTo fault p s f))"
    if "fault = Write_ok"
    using that assms decode_encode[of s s]
    by (simp add: writeStateTo_def readState_def split: sum.split)
  show "snd (readState True p f) p = None" if "fst (readState True p f) = None"
    using that by (auto simp: readState_def unlink_def split: option.splits content.splits sum.splits)
next
  fix s' assume s': "fst (readState ok p f) = Some s'"
  then show "valid_state s'" by (auto simp: readState_fst dest: state_file.load_valid)
  from s' show "snd (readState ok p f) = f"
    by (auto simp: readState_def split: option.splits content.splits sum.splits)
qed

theorem state_file_atomic_witness:
  "fst (readState True ''/p'' (snd (writeStateTo Rename_fails ''/p'' (sample_state 3) Map.empty)))
     \<in> {None, Some (sample_state 3)}"
proof -
  have "valid_state (sample_state 3)" by code_simp
  from state_file_atomic[OF this, of True "''/p''" Rename_fails Map.empty] show ?thesis
    by (simp add: readState_def)
qed

section \<open>Starting a loop\<close>

text \<open>A start that passes its own checks survives the next read.  With the
  arguments accepted and no loop active, the loop that is written once the session is known
  to be a root session is exactly the one every later read returns: the checks of
  \<open>loop-start\<close> on the task, the sentinel and the limit imply those of
  \<open>readState\<close>.  Any other kind of session, and any failure of the write, leaves no
  loop behind.\<close>

theorem start_round_trip:
  assumes "loop_start_begin fl args sid w = (Suspended st, w1)"
    and "loop_start_resume fl' st r uuid w2 = (res, w3)"
    and "sid \<noteq> []" and "uuid \<noteq> []"
  shows "live w = None \<and> prompts w3 = prompts w2
    \<and> (if sessionKind r = Root \<and> write_res fl' = Write_ok
       then live w3 = Some (new_state st uuid) \<and> res = Started (new_state st uuid)
          \<and> sessionID (new_state st uuid) = sid \<and> task (new_state st uuid) = a_task args
       else live w3 = live w2)"
proof -
  from assms(1) have st: "st = \<lparr>st_task = a_task args, st_sentinel = st_sentinel st,
      st_max = st_max st, st_session = sid\<rparr>" "trim (a_task args) \<noteq> []"
    "validSentinel (JStr (st_sentinel st))"
    "MIN_MAX_ITERATIONS \<le> st_max st" "st_max st \<le> MAX_MAX_ITERATIONS"
    "\<exists>w'. read_world fl w = (None, w')"
    by (auto simp: loop_start_begin_def Let_def split: if_splits prod.splits option.splits)
  then have "valid_state (new_state st uuid)" "sessionID (new_state st uuid) = sid"
    "task (new_state st uuid) = a_task args"
    using assms(3,4) by (simp_all add: valid_state_def new_state_def) (metis start_task.select_convs)+
  moreover have "live w = None" using st by (auto elim: read_worldE)
  moreover obtain ok w' where wr: "write_world fl' (new_state st uuid) w2 = (ok, w')" by force
  moreover from wr have "ok \<longleftrightarrow> write_res fl' = Write_ok"
    by (auto simp: write_world_def writeStateTo_def split: write_fault.splits)
  moreover from wr obtain f where "w' = w2\<lparr>disk := f\<rparr>"
    "live w' = (if ok then if valid_state (new_state st uuid) then Some (new_state st uuid) else None
      else live w2)"
    by (rule write_worldE)
  ultimately show ?thesis
    using assms(2)
    by (auto simp: loop_start_resume_def split: session_kind.splits if_splits)
qed

theorem start_round_trip_witness:
  "\<exists>st w1 res w3. loop_start_begin no_faults \<lparr>a_task = ''work'', a_sentinel = None, a_max = None\<rparr>
       ''s'' (init_world ''/p'') = (Suspended st, w1)
     \<and> loop_start_resume no_faults st root_reply ''r'' w1 = (res, w3)
     \<and> live w3 = Some (new_state st ''r'') \<and> maxIterations (new_state st ''r'') = 100"
proof -
  let ?st = "\<lparr>st_task = ''work'', st_sentinel = DEFAULT_SENTINEL, st_max = 100, st_session = ''s''\<rparr>"
  obtain x w1 where b: "loop_start_begin no_faults
      \<lparr>a_task = ''work'', a_sentinel = None, a_max = None\<rparr> ''s'' (init_world ''/p'') = (x, w1)"
    by force
  have "fst (loop_start_begin no_faults
      \<lparr>a_task = ''work'', a_sentinel = None, a_max = None\<rparr> ''s'' (init_world ''/p'')) = Suspended ?st"
    by code_simp
  with b have x: "x = Suspended ?st" by simp
  obtain res w3 where r: "loop_start_resume no_faults ?st root_reply ''r'' w1 = (res, w3)" by force
  have "sessionKind root_reply = Root" "write_res no_faults = Write_ok" by code_simp+
  with start_round_trip[OF b[unfolded x] r] have "live w3 = Some (new_state ?st ''r'')" by simp
  with b[unfolded x] r show ?thesis by (auto simp: new_state_def)
qed

text \<open>A start never disturbs an active loop.  While a loop is active the tool only
  answers: nothing is suspended, the loop and the prompts stay as they are, and with
  acceptable arguments the answer names the active loop and whether it belongs to the calling
  session.\<close>

theorem start_refused_while_active:
  assumes "live w = Some d" and "loop_start_begin fl args sid w = (x, w')"
  shows "live w' = Some d \<and> prompts w' = prompts w \<and> (\<exists>a. x = Answer a
    \<and> a \<in> {Refused_task, Refused_sentinel, Refused_active d (sessionID d = sid)} \<union> range Refused_max)"
  using assms
  by (auto simp: loop_start_begin_def Let_def split: if_splits prod.splits option.splits
      elim!: read_worldE)

text \<open>The schema and the checks agree.  Arguments that the schema admits are never refused
  for their limit, and only a blank task is refused as a task; and whether the schema's
  defaults are filled in before or left to \<open>execute\<close> makes no difference.\<close>

theorem admitted_arguments:
  assumes "loop_start_args v = Some args"
  shows "fst (loop_start_begin fl args sid w) \<noteq> Answer (Refused_max n)
    \<and> (fst (loop_start_begin fl args sid w) = Answer Refused_task \<longleftrightarrow> trim (a_task args) = [])
    \<and> loop_start_begin fl (with_defaults args) sid w = loop_start_begin fl args sid w"
proof -
  obtain mx where "optional_arg limit_arg (opt_get v ''maxIterations'') = Some mx" "a_max args = mx"
    using assms by (auto simp: loop_start_args_def split: option.splits)
  then have "case a_max args of None \<Rightarrow> True
      | Some m \<Rightarrow> integer_in (JNum m) MIN_MAX_ITERATIONS (Some MAX_MAX_ITERATIONS)"
    by (cases "opt_get v ''maxIterations''"; cases mx) (auto simp: optional_arg_def split: if_splits)
  moreover have "integer_in (JNum (int_num DEFAULT_MAX_ITERATIONS)) MIN_MAX_ITERATIONS (Some MAX_MAX_ITERATIONS)"
    by (simp add: loop_constants)
  ultimately show ?thesis
    by (auto simp: loop_start_begin_def with_defaults_def Let_def split: option.splits prod.splits)
qed






section \<open>Completion\<close>

lemma last_line_is_filter:
  "last_line_is ls s =
   (case filter (\<lambda>l. l \<noteq> []) (map trim ls) of [] \<Rightarrow> False | l # _ \<Rightarrow> l = s)"
  by (induction ls) (simp_all add: Let_def)

text \<open>C33: Only the last line that is not blank completes a loop.  The sentinel matches
  exactly when some line of the message is not blank and the last such line, trimmed, equals
  it; a mention of the sentinel earlier in the message, or as part of the last line, does not
  end the loop.\<close>

theorem matchesSentinel_last_line:
  "matchesSentinel text s \<longleftrightarrow>
     filter (\<lambda>l. l \<noteq> []) (map trim (split_lines text)) \<noteq> []
     \<and> last (filter (\<lambda>l. l \<noteq> []) (map trim (split_lines text))) = s"
proof -
  let ?ls = "filter (\<lambda>l. l \<noteq> []) (map trim (split_lines text))"
  have "filter (\<lambda>l. l \<noteq> []) (map trim (rev (split_lines text))) = rev ?ls"
    by (simp add: rev_map rev_filter)
  then have "matchesSentinel text s = (case rev ?ls of [] \<Rightarrow> False | l # _ \<Rightarrow> l = s)"
    by (simp only: matchesSentinel_def last_line_is_filter)
  also have "\<dots> \<longleftrightarrow> ?ls \<noteq> [] \<and> last ?ls = s"
    by (cases ?ls rule: rev_cases) simp_all
  finally show ?thesis .
qed

section \<open>Deleted sessions\<close>

definition sent_to :: "string \<Rightarrow> world \<Rightarrow> prompt_call list" where
  "sent_to sid w = filter (\<lambda>c. p_session c = sid) (prompts w)"

lemma deleted_segments:
  "onFailure fl s w = (c, w') \<Longrightarrow> deleted_sessions w' = deleted_sessions w"
  "handleIdle_begin fl sid w = (c, w') \<Longrightarrow> deleted_sessions w' = deleted_sessions w"
  "handleIdle_messages fl s m w = (c, w') \<Longrightarrow> deleted_sessions w' = deleted_sessions w"
  "handleIdle_kind fl s r w = (c, w') \<Longrightarrow> deleted_sessions w' = deleted_sessions w"
proof -
  show f: "onFailure fl s w = (c, w') \<Longrightarrow> deleted_sessions w' = deleted_sessions w"
    by (erule onFailure_cases) (auto simp: quiet_fields)
  show "handleIdle_begin fl sid w = (c, w') \<Longrightarrow> deleted_sessions w' = deleted_sessions w"
    by (erule begin_cases) (auto simp: quiet_fields)
  show "handleIdle_messages fl s m w = (c, w') \<Longrightarrow> deleted_sessions w' = deleted_sessions w"
    by (erule messages_cases) (auto simp: quiet_fields f)
  show "handleIdle_kind fl s r w = (c, w') \<Longrightarrow> deleted_sessions w' = deleted_sessions w"
    by (auto simp: handleIdle_kind_def quiet_fields[OF quiet_clear] split: session_kind.splits)
qed

lemma deleted_set [simp]:
  "deleted_sessions (set_task tid t w) = deleted_sessions w"
  "deleted_sessions (set_pending tid w) = deleted_sessions w"
  "deleted_sessions (finish_task tid t w) = deleted_sessions w"
  by (simp_all add: set_task_def set_pending_def finish_task_def)

lemma deleted_processIdle: "deleted_sessions (processIdle fl sid w) = deleted_sessions w"
  by (auto simp: processIdle_def Let_def split: option.split prod.split dest: deleted_segments(2))

lemma deleted_mono:
  assumes "loop_step w act w'"
  shows "deleted_sessions w \<subseteq> deleted_sessions w'"
  using assms
proof (cases rule: loop_step.cases)
  case (event type props fl)
  have "deleted_sessions w \<subseteq> deleted_sessions (session_deleted fl sid w)" for sid
    by (auto simp: session_deleted_def Let_def quiet_fields[OF quiet_clear] quiet_fields[OF quiet_read]
        split: option.split prod.split)
  with event show ?thesis by (simp add: handle_event_def deleted_processIdle split: loop_event.split)
next
  case (continue tid t fl)
  then show ?thesis by (auto simp: continue_task_def split: prod.splits if_splits dest: deleted_segments)
next
  case (start_reply tid st uuid r fl)
  obtain k w1 where "write_world fl (new_state st uuid) (w\<lparr>start_tasks := (start_tasks w)(tid := None)\<rparr>)
      = (k, w1)"
    by force
  with start_reply show ?thesis
    by (auto simp: loop_start_resume_def elim!: write_worldE split: session_kind.splits)
next
  case (prompt tid t s n fl ok)
  then show ?thesis
    by (auto simp: step_task_def handleIdle_prompt_def dest: deleted_segments split: prod.splits if_splits)
qed (auto simp: step_task_def quiet_fields[OF stop_quiet] quiet_fields[OF start_begin_quiet]
    quiet_fields[OF quiet_read] current_status_begin_def current_status_resume_def Let_def
    deleted_processIdle restart_def
    split: prod.splits option.splits status_reply.splits dest: deleted_segments)


lemma deleted_quiet_step:
  assumes "loop_inv w" "benign_step w act w'" "sid \<in> deleted_sessions w"
  shows "sent_to sid w' = sent_to sid w \<and> sid \<in> deleted_sessions w'"
proof -
  obtain a fl where "act = (a, fl)" by (cases act)
  with step_prompts[OF assms(1)] assms(2,3) have "sent_to sid w' = sent_to sid w"
    by (force simp: sent_to_def prompt_of_def)
  moreover have "sid \<in> deleted_sessions w'"
    using deleted_mono[of w act w'] assms(2,3) unfolding benign_step_def by blast
  ultimately show ?thesis by simp
qed

interpretation deleted_stable: stable_in is_init benign_step loop_inv
  "\<lambda>w. sid \<in> deleted_sessions w \<and> sent_to sid w = calls" for sid calls
  by unfold_locales (use deleted_quiet_step in blast)

text \<open>C24: A deleted session is left alone.  Once the event of its deletion has been handled
  (with the state file removable), no schedule whatever sends another prompt to the session
  or makes a loop of it active again, not even one of the handlers that were already running
  for it.\<close>

theorem deleted_session_silent:
  assumes "reachable is_init benign_step w" and "unlink_ok fl"
    and "decode_loop_event type props = Deleted sid"
    and "run benign_step (handle_event fl type props w) acts w'"
  shows "sent_to sid w' = sent_to sid w \<and> (\<forall>d. live w' = Some d \<longrightarrow> sessionID d \<noteq> sid)"
proof -
  let ?w = "handle_event fl type props w"
  have "benign_step w (Event type props, fl) ?w"
    using assms(2,3) loop_step.event by (auto simp: benign_step_def benign_def)
  then have inv: "loop_inv ?w"
    by (rule loop_machine.inv_step[OF loop_machine.inv_reachable[OF assms(1)]])
  have "sid \<in> deleted_sessions ?w"
    using assms(3) by (simp add: handle_event_def session_deleted_def Let_def split: prod.split)
  with deleted_stable.stable_run[OF assms(4) inv, of sid] have "sent_to sid w' = sent_to sid ?w"
    "sid \<in> deleted_sessions w'" "loop_inv w'"
    by blast+
  moreover have "sent_to sid ?w = sent_to sid w"
    using tame_event[of w fl type props] by (simp add: tame_def sent_to_def)
  ultimately show ?thesis by (auto simp: loop_inv_def live_inv_def)
qed

definition deletion_of :: "string \<Rightarrow> jsval" where
  "deletion_of sid = JObj [(''sessionID'', JStr sid)]"

theorem deleted_session_silent_witness:
  "\<exists>w w'. reachable is_init benign_step w \<and> live w = Some (sample_state 2)
     \<and> run benign_step (handle_event no_faults ''session.deleted'' (deletion_of ''s'') w) [] w'
     \<and> sent_to ''s'' w' = sent_to ''s'' w
     \<and> (\<forall>d. live w' = Some d \<longrightarrow> sessionID d \<noteq> ''s'')"
proof -
  have "trial (\<lambda>w w'. live w') [sample_start ''s'' 2] (Start_reply 0 root_reply ''r'')
      = Some (Some (sample_state 2))"
    by code_simp
  from trial_step[OF this] obtain w where w: "reachable is_init benign_step w"
    "live w = Some (sample_state 2)"
    by (blast intro: reachable.step)
  have d: "unlink_ok no_faults" "decode_loop_event ''session.deleted'' (deletion_of ''s'') = Deleted ''s''"
    by code_simp+
  let ?w = "handle_event no_faults ''session.deleted'' (deletion_of ''s'') w"
  have r: "run benign_step ?w [] ?w" by (rule run_done)
  show ?thesis
    by (intro exI[of _ w] exI[of _ ?w] conjI w r) (use deleted_session_silent[OF w(1) d r] in blast)+
qed

section \<open>Foreign sessions\<close>

text \<open>The idle event of a session that is not the loop's leaves the state file and the
  prompts as they are, and its handler is already finished.\<close>

lemma foreign_idle_ignored:
  assumes "live w = Some d" and "sessionID d \<noteq> sid" and "in_flight w sid = None"
  shows "live (processIdle fl sid w) = Some d \<and> disk (processIdle fl sid w) = disk w
    \<and> prompts (processIdle fl sid w) = prompts w
    \<and> map_option t_pc (idle_tasks (processIdle fl sid w) (next_id w)) = Some Finished"
  using assms
  by (simp add: processIdle_def Let_def handleIdle_begin_def read_live set_task_def)

end
