(* ===== verification/Loop_Tasks.thy ===== *)
theory Loop_Tasks
  imports Loop_Effects
begin

text \<open>
  What the steps of the loop plugin do to its handlers: there are finitely many, a marker
  points to a handler of its session, and each segment of a handler changes the disk and the
  prompts only.
\<close>

section \<open>Handlers and markers\<close>

definition finite_tasks :: "world \<Rightarrow> bool" where
  "finite_tasks w \<longleftrightarrow> finite (dom (idle_tasks w)) \<and> finite (dom (status_tasks w))"

text \<open>A marker points to a handler of its session, if to any.\<close>

definition markers_ok :: "world \<Rightarrow> bool" where
  "markers_ok w \<longleftrightarrow> (\<forall>sid tid. in_flight w sid = Some tid \<longrightarrow>
     tid < next_id w \<and> (\<forall>t. idle_tasks w tid = Some t \<longrightarrow> t_session t = sid))"

definition sane :: "world \<Rightarrow> bool" where
  "sane w \<longleftrightarrow> finite_tasks w \<and> markers_ok w \<and> loop_inv w"

lemma finite_update [simp]:
  "finite_tasks (w\<lparr>in_flight := a\<rparr>) = finite_tasks w" "finite_tasks (w\<lparr>start_tasks := b\<rparr>) = finite_tasks w"
  "finite_tasks (w\<lparr>next_id := c\<rparr>) = finite_tasks w" "finite_tasks (w\<lparr>used_runs := d\<rparr>) = finite_tasks w"
  "finite_tasks (w\<lparr>deleted_sessions := e\<rparr>) = finite_tasks w" "finite_tasks (w\<lparr>disk := f\<rparr>) = finite_tasks w"
  "finite_tasks (w\<lparr>prompts := g\<rparr>) = finite_tasks w"
  by (simp_all add: finite_tasks_def)

lemma finite_set_task [simp]: "finite_tasks (set_task tid t w) = finite_tasks w"
  by (simp add: finite_tasks_def set_task_def)

lemma sane_init: "is_init w \<Longrightarrow> sane w"
  using loop_inv_init[of w]
  by (auto simp: sane_def finite_tasks_def markers_ok_def is_init_def init_world_def)

section \<open>What the segments change\<close>

text \<open>A handler begins by reading the disk, and ends or asks for the session.\<close>

definition begun :: "pc \<Rightarrow> bool" where
  "begun c \<longleftrightarrow> c = Finished \<or> (\<exists>s. c = Await_kind s)"

lemma begin_quiet:
  assumes "handleIdle_begin fl sid' w = (c, w')"
  shows "quiet w w' \<and> begun c"
  using assms by (rule begin_cases) (simp_all add: begun_def)

lemma failure_ends:
  assumes "onFailure fl s w = (c, w')"
  shows "(\<exists>f. w' = w\<lparr>disk := f\<rparr>) \<and> (c = Finished \<or> c = Threw)"
  using assms by (rule onFailure_cases) (auto simp: quiet_def)

text \<open>The reply about the session of a start changes the disk, the runs and the starts only.\<close>

lemma start_reply_frame:
  obtains f u where "snd (loop_start_resume fl st r uuid w) = w\<lparr>disk := f, used_runs := u\<rparr>"
proof (cases "sessionKind r = Root")
  case True
  obtain ok w1 where wr: "write_world fl (new_state st uuid) w = (ok, w1)" by force
  then obtain f where "w1 = w\<lparr>disk := f\<rparr>" by (rule write_worldE)
  with True wr that show thesis by (simp add: loop_start_resume_def)
next
  case False
  then have "snd (loop_start_resume fl st r uuid w) = w\<lparr>disk := disk w, used_runs := used_runs w\<rparr>"
    by (simp add: loop_start_resume_def split: session_kind.split)
  then show thesis by (rule that)
qed

section \<open>Markers\<close>

lemma markers_update [simp]:
  "markers_ok (w\<lparr>disk := a\<rparr>) = markers_ok w" "markers_ok (w\<lparr>prompts := b\<rparr>) = markers_ok w"
  "markers_ok (w\<lparr>used_runs := c\<rparr>) = markers_ok w" "markers_ok (w\<lparr>start_tasks := d\<rparr>) = markers_ok w"
  "markers_ok (w\<lparr>status_tasks := e\<rparr>) = markers_ok w" "markers_ok (w\<lparr>deleted_sessions := f\<rparr>) = markers_ok w"
  by (simp_all add: markers_ok_def)

lemma markers_clear: "markers_ok w \<Longrightarrow> markers_ok (w\<lparr>in_flight := (in_flight w)(sid := None)\<rparr>)"
  by (simp add: markers_ok_def)

lemma markers_next: "markers_ok w \<Longrightarrow> markers_ok (w\<lparr>next_id := Suc (next_id w)\<rparr>)"
  by (fastforce simp: markers_ok_def)

lemma markers_next' [simp]:
  "markers_ok (w\<lparr>start_tasks := d, next_id := n\<rparr>) = markers_ok (w\<lparr>next_id := n\<rparr>)"
  "markers_ok (w\<lparr>status_tasks := e, next_id := n\<rparr>) = markers_ok (w\<lparr>next_id := n\<rparr>)"
  by (simp_all add: markers_ok_def)

lemma markers_quiet: "quiet w w' \<Longrightarrow> markers_ok w' = markers_ok w"
  by (auto simp: quiet_def)

lemma markers_set:
  "markers_ok w \<Longrightarrow> idle_tasks w tid = Some t \<Longrightarrow> t_session t' = t_session t \<Longrightarrow> markers_ok (set_task tid t' w)"
  by (simp add: markers_ok_def set_task_def)

text \<open>Steps that start no handler: they drop markers and keep the sessions of the handlers.\<close>

lemma markers_carry:
  assumes "markers_ok w" "next_id w \<le> next_id w'"
    and "\<And>sid tid. in_flight w' sid = Some tid \<Longrightarrow> in_flight w sid = Some tid"
    and "\<And>tid t'. idle_tasks w' tid = Some t' \<Longrightarrow> \<exists>t. idle_tasks w tid = Some t \<and> t_session t = t_session t'"
  shows "markers_ok w'"
  unfolding markers_ok_def
proof (intro allI impI)
  fix sid tid
  assume "in_flight w' sid = Some tid"
  then have m: "in_flight w sid = Some tid" by (rule assms(3))
  with assms(1) have "tid < next_id w" unfolding markers_ok_def by blast
  with assms(2) have "tid < next_id w'" by simp
  moreover have "t_session t' = sid" if t': "idle_tasks w' tid = Some t'" for t'
  proof -
    from assms(4)[OF t'] obtain t where "idle_tasks w tid = Some t" "t_session t = t_session t'" by blast
    moreover from assms(1) m have "\<forall>u. idle_tasks w tid = Some u \<longrightarrow> t_session u = sid"
      unfolding markers_ok_def by blast
    ultimately show ?thesis by simp
  qed
  ultimately show "tid < next_id w' \<and> (\<forall>t. idle_tasks w' tid = Some t \<longrightarrow> t_session t = sid)" by blast
qed

lemma markers_pending: "markers_ok w \<Longrightarrow> markers_ok (set_pending tid w)"
proof (cases "idle_tasks w tid")
  case None
  then have "set_pending tid w = w" by (simp add: set_pending_def fun_upd_idem)
  then show "markers_ok w \<Longrightarrow> markers_ok (set_pending tid w)" by simp
next
  case (Some t)
  then have "set_pending tid w = set_task tid (t\<lparr>t_pending := True\<rparr>) w"
    by (simp add: set_pending_def set_task_def)
  with Some show "markers_ok w \<Longrightarrow> markers_ok (set_pending tid w)"
    using markers_set[of w tid t "t\<lparr>t_pending := True\<rparr>"] by simp
qed

lemma markers_process:
  assumes "markers_ok w"
  shows "markers_ok (processIdle fl sid w)"
proof (cases "in_flight w sid")
  case None
  let ?w = "w\<lparr>in_flight := (in_flight w)(sid \<mapsto> next_id w), next_id := Suc (next_id w)\<rparr>"
  obtain c w2 where b: "handleIdle_begin fl sid ?w = (c, w2)" by force
  then obtain f where "w2 = ?w\<lparr>disk := f\<rparr>" using begin_quiet[OF b] by (auto simp: quiet_def)
  let ?t = "\<lparr>t_session = sid, t_rerun = False, t_pending = False, t_pc = c\<rparr>"
  have "markers_ok (set_task (next_id w) ?t (?w\<lparr>disk := f\<rparr>))"
    using assms by (auto simp: set_task_def markers_ok_def intro: less_SucI)
  with None b \<open>w2 = ?w\<lparr>disk := f\<rparr>\<close> show ?thesis by (simp add: processIdle_def Let_def)
next
  case (Some tid)
  with assms show ?thesis by (simp add: processIdle_def markers_pending)
qed

text \<open>Steps that leave handlers and markers alone.\<close>

definition same_tasks :: "world \<Rightarrow> world \<Rightarrow> bool" where
  "same_tasks w w' \<longleftrightarrow> idle_tasks w' = idle_tasks w \<and> in_flight w' = in_flight w
     \<and> next_id w' = next_id w \<and> status_tasks w' = status_tasks w"

lemma markers_task:
  assumes "markers_ok w" "idle_tasks w tid = Some t" "h w = (c, w')" "same_tasks w w'"
  shows "markers_ok (step_task tid t h w)"
  using assms markers_set[of w' tid t "t\<lparr>t_pc := c\<rparr>"]
  by (simp add: step_task_def same_tasks_def markers_ok_def)

lemma quiet_frame: "quiet w w' \<Longrightarrow> same_tasks w w'"
  by (auto simp: quiet_def same_tasks_def)

lemma failure_frame: "onFailure fl s w = (c, w') \<Longrightarrow> same_tasks w w'"
  using failure_ends[of fl s w c w'] by (auto simp: same_tasks_def)

text \<open>The three segments of a handler change the disk and the prompts only.\<close>

lemma segment_frame:
  "handleIdle_kind fl s r w = (c, w') \<Longrightarrow> same_tasks w w'"
  "handleIdle_messages fl s m w = (c, w') \<Longrightarrow> same_tasks w w'"
  "handleIdle_prompt fl s n ok w = (c, w') \<Longrightarrow> same_tasks w w'"
proof -
  show "handleIdle_kind fl s r w = (c, w') \<Longrightarrow> same_tasks w w'"
    using quiet_frame[OF quiet_clear[of w fl]] quiet_frame[OF quiet_refl[of w]]
    by (simp add: handleIdle_kind_def split: session_kind.splits)
  show "handleIdle_prompt fl s n ok w = (c, w') \<Longrightarrow> same_tasks w w'"
    using quiet_frame[OF quiet_refl[of w]]
    by (auto simp: handleIdle_prompt_def dest: failure_frame split: if_splits)
  assume "handleIdle_messages fl s m w = (c, w')"
  then show "same_tasks w w'"
    by (cases rule: messages_cases) (auto simp: same_tasks_def dest: quiet_frame failure_frame)
qed

lemma markers_segment:
  assumes "markers_ok w" "idle_tasks w tid = Some t"
  shows "markers_ok (step_task tid t (handleIdle_kind fl s r) w)"
    "markers_ok (step_task tid t (handleIdle_messages fl s m) w)"
    "markers_ok (step_task tid t (handleIdle_prompt fl s n ok) w)"
  using markers_task[OF assms, of "handleIdle_kind fl s r"] segment_frame(1)[of fl s r w]
    markers_task[OF assms, of "handleIdle_messages fl s m"] segment_frame(2)[of fl s m w]
    markers_task[OF assms, of "handleIdle_prompt fl s n ok"] segment_frame(3)[of fl s n ok w]
  by (metis surj_pair)+

lemma markers_continue:
  assumes "markers_ok w" "idle_tasks w tid = Some t"
  shows "markers_ok (continue_task fl tid t w)"
proof -
  obtain c w1 where b: "handleIdle_begin fl (t_session t) w = (c, w1)" by force
  let ?t = "t\<lparr>t_rerun := True, t_pending := False, t_pc := c\<rparr>"
  note q = conjunct1[OF begin_quiet[OF b]]
  have "markers_ok (set_task tid ?t w1)"
    using markers_set[of w1 tid t ?t] markers_quiet[OF q] quiet_fields(1)[OF q] assms by simp
  moreover have "markers_ok (finish_task tid t w)"
    by (rule markers_carry[OF assms(1)]) (auto simp: finish_task_def split: if_splits)
  ultimately show ?thesis using b by (simp add: continue_task_def)
qed

lemma markers_event: "markers_ok w \<Longrightarrow> markers_ok (handle_event fl type props w)"
proof -
  assume w: "markers_ok w"
  have "markers_ok (session_deleted fl sid w)" for sid
  proof -
    obtain s w1 where r: "read_world fl w = (s, w1)" by force
    have q: "markers_ok w1" "markers_ok (clear_world fl w1)"
      using w markers_quiet[OF quiet_read[OF r]] markers_quiet[OF quiet_clear[of w1 fl]] by simp_all
    with r show ?thesis
      by (simp add: session_deleted_def Let_def markers_clear split: option.split)
  qed
  with w show ?thesis by (simp add: handle_event_def markers_process split: loop_event.split)
qed

lemma markers_status:
  assumes "markers_ok w"
  shows "markers_ok (current_status_begin fl w)" "markers_ok (current_status_resume fl tid sid r w)"
proof -
  obtain s w1 where r: "read_world fl w = (s, w1)" by force
  have "markers_ok w1" using assms markers_quiet[OF quiet_read[OF r]] by simp
  with r show "markers_ok (current_status_begin fl w)"
    by (simp add: current_status_begin_def markers_next split: option.split)
  show "markers_ok (current_status_resume fl tid sid r w)"
    using assms by (simp add: current_status_resume_def Let_def markers_process split: status_reply.split)
qed

lemma step_markers:
  assumes "markers_ok w" "loop_step w a w'"
  shows "markers_ok w'"
  using assms(2)
proof (cases rule: loop_step.cases)
  case (start_answer fl args sid' x)
  then show ?thesis using assms(1) markers_quiet[OF start_begin_quiet] by blast
next
  case (start_suspend fl args sid' st w1)
  then have "markers_ok w1" using assms(1) markers_quiet[OF start_begin_quiet] by blast
  with start_suspend show ?thesis by (simp add: markers_next)
next
  case (start_reply tid st uuid r fl)
  obtain f u where "snd (loop_start_resume fl st r uuid (w\<lparr>start_tasks := (start_tasks w)(tid := None)\<rparr>))
      = w\<lparr>start_tasks := (start_tasks w)(tid := None), disk := f, used_runs := u\<rparr>" by (rule start_reply_frame)
  with start_reply assms(1) show ?thesis by simp
next
  case (stop fl)
  with assms(1) markers_quiet[OF stop_quiet] show ?thesis by simp
next
  case (restart fl)
  then show ?thesis by (simp add: restart_def markers_ok_def)
qed (use assms(1) in \<open>simp_all add: markers_event markers_segment markers_continue markers_status\<close>)

section \<open>Checks\<close>

text \<open>Without a start-up check none is ever waiting.\<close>

lemma status_set_task [simp]: "status_tasks (set_task tid t w) = status_tasks w"
  by (simp add: set_task_def)

lemma status_segment:
  assumes "h w = (c, w')" "same_tasks w w'"
  shows "status_tasks (step_task tid t h w) = status_tasks w"
  using assms by (simp add: step_task_def same_tasks_def)

lemma status_begin: "handleIdle_begin fl sid w = (c, w') \<Longrightarrow> status_tasks w' = status_tasks w"
  by (auto dest!: begin_quiet quiet_frame simp: same_tasks_def)

lemma status_process: "status_tasks (processIdle fl sid w) = status_tasks w"
  by (auto simp: processIdle_def Let_def set_pending_def dest!: status_begin split: option.split prod.split)

lemma status_continue: "status_tasks (continue_task fl tid t w) = status_tasks w"
  by (auto simp: continue_task_def finish_task_def dest!: status_begin split: prod.split)

lemma status_event: "status_tasks (handle_event fl type props w) = status_tasks w"
proof -
  have "status_tasks (session_deleted fl sid w) = status_tasks w" for sid
  proof -
    obtain s w1 where r: "read_world fl w = (s, w1)" by force
    note q = quiet_fields(8)[OF quiet_read[OF r]] quiet_fields(8)[OF quiet_clear[of w1 fl]]
    with r show ?thesis by (simp add: session_deleted_def Let_def split: option.split)
  qed
  then show ?thesis by (simp add: handle_event_def status_process split: loop_event.split)
qed

lemma step_status:
  assumes "loop_step w a w'" "fst a \<noteq> Init_status" "status_tasks w = Map.empty"
  shows "status_tasks w' = Map.empty"
  using assms(1)
proof (cases rule: loop_step.cases)
  case (kind tid t s r fl)
  then show ?thesis using assms(3) status_segment[OF _ segment_frame(1)] by (metis surj_pair)
next
  case (messages tid t s m fl)
  then show ?thesis using assms(3) status_segment[OF _ segment_frame(2)] by (metis surj_pair)
next
  case (prompt tid t s n ok fl)
  then show ?thesis using assms(3) status_segment[OF _ segment_frame(3)] by (metis surj_pair)
next
  case (start_answer fl args sid x)
  then show ?thesis using assms(3) quiet_fields(8)[OF start_begin_quiet] by metis
next
  case (start_suspend fl args sid st w1)
  then show ?thesis using assms(3) quiet_fields(8)[OF start_begin_quiet] by simp
next
  case (start_reply tid st uuid r fl)
  obtain f u where "snd (loop_start_resume fl st r uuid (w\<lparr>start_tasks := (start_tasks w)(tid := None)\<rparr>))
      = w\<lparr>start_tasks := (start_tasks w)(tid := None), disk := f, used_runs := u\<rparr>" by (rule start_reply_frame)
  with start_reply assms(3) show ?thesis by simp
next
  case (stop fl)
  with assms(3) quiet_fields(8)[OF stop_quiet] show ?thesis by simp
qed (use assms(2,3) in \<open>auto simp: status_event status_continue restart_def\<close>)

lemma run_status:
  "run benign_step w acts w' \<Longrightarrow> status_tasks w = Map.empty \<Longrightarrow> Init_status \<notin> fst ` set acts \<Longrightarrow>
   status_tasks w' = Map.empty"
proof (induction rule: run.induct)
  case (run_more w a w1 acts w')
  then show ?case using step_status[of w a w1] by (auto simp: benign_step_def)
qed simp

end
