(* ===== verification/Map_Count.thy ===== *)
theory Map_Count
  imports Main
begin

text \<open>
  The total worth of the entries of a finite map, and how an update changes it.  The
  accounts that both plugins keep of their runs rest on it.
\<close>

definition total :: "('v \<Rightarrow> nat) \<Rightarrow> ('k \<rightharpoonup> 'v) \<Rightarrow> nat" where
  "total f m = (\<Sum>i\<in>dom m. f (the (m i)))"

definition worth_of :: "('v \<Rightarrow> nat) \<Rightarrow> 'v option \<Rightarrow> nat" where
  "worth_of f v = (case v of None \<Rightarrow> 0 | Some x \<Rightarrow> f x)"

lemma worth_of_simps [simp]: "worth_of f None = 0" "worth_of f (Some x) = f x"
  by (simp_all add: worth_of_def)

text \<open>The balance of an update: what the old and the new entry are worth.\<close>

lemma total_update:
  assumes "finite (dom m)"
  shows "total f (m(i := v)) + worth_of f (m i) = total f m + worth_of f v"
proof -
  have split: "total f n = (\<Sum>j\<in>dom m - {i}. f (the (m j))) + worth_of f (n i)"
    if "\<And>j. j \<noteq> i \<Longrightarrow> n j = m j" for n
  proof -
    have dom: "dom n - {i} = dom m - {i}" using that by (auto simp: dom_def)
    then have fin: "finite (dom n)" using assms by (metis finite_Diff2 finite.emptyI finite.insertI)
    have rest: "(\<Sum>j\<in>dom n - {i}. f (the (n j))) = (\<Sum>j\<in>dom m - {i}. f (the (m j)))"
      using that unfolding dom by (intro sum.cong) simp_all
    show ?thesis
    proof (cases "n i")
      case None
      then have "i \<notin> dom n" by auto
      with rest None show ?thesis by (simp add: total_def)
    next
      case (Some x)
      then have "total f n = f x + (\<Sum>j\<in>dom n - {i}. f (the (n j)))"
        using fin by (simp add: total_def sum.remove[of "dom n" i] domI)
      with rest Some show ?thesis by simp
    qed
  qed
  from split[of m] split[of "m(i := v)"] show ?thesis by simp
qed

lemma total_insert: "finite (dom m) \<Longrightarrow> total f (m(i \<mapsto> x)) \<le> total f m + f x"
  using total_update[of m f i "Some x"] by simp

lemma total_replace: "finite (dom m) \<Longrightarrow> m i = Some y \<Longrightarrow> total f (m(i \<mapsto> x)) + f y = total f m + f x"
  using total_update[of m f i "Some x"] by simp

lemma total_remove: "finite (dom m) \<Longrightarrow> m i = Some y \<Longrightarrow> total f (m(i := None)) + f y = total f m"
  using total_update[of m f i None] by simp

lemma total_remove_le: "finite (dom m) \<Longrightarrow> total f (m(i := None)) \<le> total f m"
  using total_update[of m f i None] by simp

lemma total_restrict_le: "finite (dom m) \<Longrightarrow> total f (m |` A) \<le> total f m"
  unfolding total_def dom_restrict by (rule order_trans[OF _ sum_mono2[of "dom m" "dom m \<inter> A"]])
    (auto intro!: sum_mono)

lemma total_empty [simp]: "total f Map.empty = 0" "total f (\<lambda>_. None) = 0"
  by (simp_all add: total_def)

text \<open>Credits summed over the actions of a run.\<close>

lemma sum_credits: "sum_list (map (\<lambda>a. c * of_bool (P a)) acts) = c * length (filter P acts)"
  by (induction acts) simp_all

lemma sum_matching: "sum_list (map (\<lambda>c. of_bool (P c)) xs) = length (filter P xs)"
  using sum_credits[of 1 P xs] by simp

end
