(* ===== verification/Loop_Count.thy ===== *)
theory Loop_Count
  imports Loop_Tasks Map_Count
begin

text \<open>
  Accounts of the loop plugin.  A ledger assigns a worth to every handler, waiting check and
  prompt, such that what a handler does next is covered by what it is worth.  One ledger
  shows that every continuation is caused by an idle event of its own or by the check of a
  plugin start, another that a wake-up causes only a bounded number of further steps.
\<close>

section \<open>Ledgers\<close>

definition loop_balance ::
  "(idle_task \<Rightarrow> nat) \<Rightarrow> (prompt_call \<Rightarrow> nat) \<Rightarrow> (string \<Rightarrow> nat) \<Rightarrow> nat \<Rightarrow> world \<Rightarrow> nat" where
  "loop_balance task_worth sent_worth idle_worth price w =
     sum_list (map sent_worth (prompts w)) + total task_worth (idle_tasks w)
     + total (\<lambda>sid. idle_worth sid + price) (status_tasks w)"

text \<open>The session that an event announces as idle.\<close>

fun idle_session :: "action \<times> faults \<Rightarrow> string option" where
  "idle_session (Event type props, fl) =
     (case decode_loop_event type props of Idle sid \<Rightarrow> Some sid | _ \<Rightarrow> None)"
| "idle_session _ = None"

fun start_check :: "action \<times> faults \<Rightarrow> bool" where
  "start_check (Init_status, fl) = True"
| "start_check _ = False"

text \<open>Steps that something else has caused: replies, and handlers that go on.\<close>

fun handler_step :: "action \<times> faults \<Rightarrow> bool" where
  "handler_step (Kind_reply _ _, fl) = True"
| "handler_step (Messages_reply _ _, fl) = True"
| "handler_step (Prompt_reply _ _, fl) = True"
| "handler_step (Continue _, fl) = True"
| "handler_step (Status_reply _ _, fl) = True"
| "handler_step _ = False"

definition loop_credit :: "(string \<Rightarrow> nat) \<Rightarrow> nat \<Rightarrow> action \<times> faults \<Rightarrow> nat" where
  "loop_credit idle_worth check_worth a =
     worth_of idle_worth (idle_session a) + check_worth * of_bool (start_check a)"

text \<open>What a handler is worth covers its next point, the prompt it sends and the price of the
  step.\<close>

locale loop_ledger =
  fixes task_worth :: "idle_task \<Rightarrow> nat" and sent_worth :: "prompt_call \<Rightarrow> nat"
    and idle_worth :: "string \<Rightarrow> nat" and check_worth price :: nat
  assumes worth_start: "begun c \<Longrightarrow>
      task_worth \<lparr>t_session = sid, t_rerun = False, t_pending = False, t_pc = c\<rparr> \<le> idle_worth sid"
    and worth_pending: "task_worth (t\<lparr>t_pending := True\<rparr>) \<le> task_worth t + idle_worth (t_session t)"
    and worth_kind: "t_pc t = Await_kind s \<Longrightarrow> task_worth (t\<lparr>t_pc := Await_messages s\<rparr>) + price \<le> task_worth t"
    and worth_prompt: "t_pc t = Await_messages s \<Longrightarrow> sessionID s = t_session t \<Longrightarrow>
      task_worth (t\<lparr>t_pc := Await_prompt s n\<rparr>) + sent_worth (prompt_of s n) + price \<le> task_worth t"
    and worth_ended: "held (t_pc t) \<noteq> None \<Longrightarrow> held c = None \<Longrightarrow> task_worth (t\<lparr>t_pc := c\<rparr>) + price \<le> task_worth t"
    and worth_rerun: "t_pc t = Finished \<Longrightarrow> \<not> t_rerun t \<Longrightarrow> t_pending t \<Longrightarrow> begun c \<Longrightarrow>
      task_worth (t\<lparr>t_rerun := True, t_pending := False, t_pc := c\<rparr>) + price \<le> task_worth t"
    and worth_finish: "held (t_pc t) = None \<Longrightarrow> price \<le> task_worth t"
    and worth_check: "idle_worth sid + price \<le> check_worth"

section \<open>Balances\<close>

lemma loop_balance_update [simp]:
  "loop_balance f g h p (w\<lparr>in_flight := a\<rparr>) = loop_balance f g h p w"
  "loop_balance f g h p (w\<lparr>start_tasks := b\<rparr>) = loop_balance f g h p w"
  "loop_balance f g h p (w\<lparr>next_id := c\<rparr>) = loop_balance f g h p w"
  "loop_balance f g h p (w\<lparr>used_runs := d\<rparr>) = loop_balance f g h p w"
  "loop_balance f g h p (w\<lparr>deleted_sessions := e\<rparr>) = loop_balance f g h p w"
  "loop_balance f g h p (w\<lparr>disk := k\<rparr>) = loop_balance f g h p w"
  by (simp_all add: loop_balance_def)

lemma loop_balance_quiet:
  "quiet w w' \<Longrightarrow> loop_balance f g h p w' = loop_balance f g h p w \<and> finite_tasks w' = finite_tasks w
   \<and> idle_tasks w' = idle_tasks w"
  by (auto simp: quiet_def)

lemma loop_balance_new:
  "finite_tasks w \<Longrightarrow> loop_balance f g h p (set_task tid t w) \<le> loop_balance f g h p w + f t"
  using total_insert[of "idle_tasks w" f tid t] by (simp add: loop_balance_def set_task_def finite_tasks_def)

lemma loop_balance_old:
  "finite_tasks w \<Longrightarrow> idle_tasks w tid = Some t \<Longrightarrow>
   loop_balance f g h p (set_task tid t' w) + f t = loop_balance f g h p w + f t'"
  using total_replace[of "idle_tasks w" tid t f t'] by (simp add: loop_balance_def set_task_def finite_tasks_def)

section \<open>The balance of a step\<close>

context loop_ledger
begin

lemma worth_process:
  assumes "finite_tasks w" "markers_ok w"
  shows "finite_tasks (processIdle fl sid w) \<and> loop_balance task_worth sent_worth idle_worth price (processIdle fl sid w) \<le> loop_balance task_worth sent_worth idle_worth price w + idle_worth sid"
proof (cases "in_flight w sid")
  case None
  let ?w = "w\<lparr>in_flight := (in_flight w)(sid \<mapsto> next_id w), next_id := Suc (next_id w)\<rparr>"
  obtain c w2 where b: "handleIdle_begin fl sid ?w = (c, w2)" by force
  note q = begin_quiet[OF b]
  let ?t = "\<lparr>t_session = sid, t_rerun = False, t_pending = False, t_pc = c\<rparr>"
  have "finite_tasks w2" "loop_balance task_worth sent_worth idle_worth price w2 = loop_balance task_worth sent_worth idle_worth price w"
    using loop_balance_quiet[of ?w w2 task_worth sent_worth idle_worth price] q assms(1) by simp_all
  with None b loop_balance_new[of w2 task_worth sent_worth idle_worth price "next_id w" ?t] worth_start[of c sid] q
  show ?thesis by (simp add: processIdle_def Let_def)
next
  case (Some tid)
  show ?thesis
  proof (cases "idle_tasks w tid")
    case None
    then have "set_pending tid w = w" by (simp add: set_pending_def fun_upd_idem)
    with Some assms(1) show ?thesis by (simp add: processIdle_def)
  next
    case t: (Some t)
    have "processIdle fl sid w = set_task tid (t\<lparr>t_pending := True\<rparr>) w"
      using Some t by (simp add: processIdle_def set_pending_def set_task_def)
    moreover have "t_session t = sid" using assms(2) Some t by (simp add: markers_ok_def)
    ultimately show ?thesis
      using assms(1) worth_pending[of t]
        loop_balance_old[OF assms(1) t, of task_worth sent_worth idle_worth price "t\<lparr>t_pending := True\<rparr>"] by simp
  qed
qed

text \<open>A segment that leads the handler to \<open>c\<close> and changes the disk only.\<close>

lemma worth_segment:
  assumes "finite_tasks w" "idle_tasks w tid = Some t" "h w = (c, w\<lparr>disk := f\<rparr>)"
    and "task_worth (t\<lparr>t_pc := c\<rparr>) + price \<le> task_worth t"
  shows "finite_tasks (step_task tid t h w) \<and> loop_balance task_worth sent_worth idle_worth price (step_task tid t h w) + price \<le> loop_balance task_worth sent_worth idle_worth price w"
  using assms loop_balance_old[of "w\<lparr>disk := f\<rparr>" tid t task_worth sent_worth idle_worth price "t\<lparr>t_pc := c\<rparr>"]
  by (simp add: step_task_def)

lemma worth_continue:
  assumes "finite_tasks w" "idle_tasks w tid = Some t" "t_pc t = Finished \<or> t_pc t = Threw"
  shows "finite_tasks (continue_task fl tid t w) \<and> loop_balance task_worth sent_worth idle_worth price (continue_task fl tid t w) + price \<le> loop_balance task_worth sent_worth idle_worth price w"
proof (cases "t_pc t = Finished \<and> \<not> t_rerun t \<and> t_pending t")
  case True
  obtain c w1 where b: "handleIdle_begin fl (t_session t) w = (c, w1)" by force
  let ?t = "t\<lparr>t_rerun := True, t_pending := False, t_pc := c\<rparr>"
  note q = loop_balance_quiet[OF conjunct1[OF begin_quiet[OF b]]]
  have "task_worth ?t + price \<le> task_worth t" using True begin_quiet[OF b] by (simp add: worth_rerun)
  with loop_balance_old[of w1 tid t task_worth sent_worth idle_worth price ?t] q assms True b
  show ?thesis by (simp add: continue_task_def)
next
  case False
  then have "continue_task fl tid t w = finish_task tid t w" by (auto simp: continue_task_def)
  moreover have "price \<le> task_worth t" using assms(3) by (auto intro: worth_finish)
  ultimately show ?thesis using assms(1) total_remove[of "idle_tasks w" tid t task_worth] assms(2)
    by (simp add: finish_task_def loop_balance_def finite_tasks_def)
qed

lemma worth_kind_reply:
  assumes "finite_tasks w" "idle_tasks w tid = Some t" "t_pc t = Await_kind s"
  shows "finite_tasks (step_task tid t (handleIdle_kind fl s r) w)
    \<and> loop_balance task_worth sent_worth idle_worth price (step_task tid t (handleIdle_kind fl s r) w) + price \<le> loop_balance task_worth sent_worth idle_worth price w"
proof -
  obtain c w' where h: "handleIdle_kind fl s r w = (c, w')" by force
  then have "quiet w w'" "c = Finished \<or> c = Await_messages s"
    by (auto simp: handleIdle_kind_def quiet_clear split: session_kind.splits)
  moreover from this(2) have "task_worth (t\<lparr>t_pc := c\<rparr>) + price \<le> task_worth t"
    using assms(3) worth_kind worth_ended by auto
  ultimately show ?thesis using worth_segment[OF assms(1,2)] h by (auto simp: quiet_def)
qed

lemma worth_messages_reply:
  assumes "finite_tasks w" "idle_tasks w tid = Some t" "t_pc t = Await_messages s" "sessionID s = t_session t"
  shows "finite_tasks (step_task tid t (handleIdle_messages fl s m) w)
    \<and> loop_balance task_worth sent_worth idle_worth price (step_task tid t (handleIdle_messages fl s m) w) + price \<le> loop_balance task_worth sent_worth idle_worth price w"
proof -
  obtain c w' where h: "handleIdle_messages fl s m w = (c, w')" by force
  have ended: ?thesis if "w' = w\<lparr>disk := f\<rparr>" "c = Finished \<or> c = Threw" for f
    by (rule worth_segment[OF assms(1,2)]) (use h that assms(3) in \<open>auto intro!: worth_ended\<close>)
  show ?thesis using h
  proof (cases rule: messages_cases)
    case failed
    then show ?thesis using failure_ends[OF failed(2)] ended by blast
  next
    case quiet
    then show ?thesis using ended unfolding quiet_def by blast
  next
    case (prompted f d n)
    let ?w = "w\<lparr>disk := f\<rparr>" and ?t = "t\<lparr>t_pc := Await_prompt s n\<rparr>"
    have "loop_balance task_worth sent_worth idle_worth price (set_task tid ?t w') = loop_balance task_worth sent_worth idle_worth price (set_task tid ?t ?w) + sent_worth (prompt_of s n)"
      by (simp add: prompted(3) loop_balance_def set_task_def)
    with loop_balance_old[of ?w tid t task_worth sent_worth idle_worth price ?t] worth_prompt[OF assms(3,4), of n]
      assms(1,2) h prompted(3,4) show ?thesis by (simp add: step_task_def)
  qed
qed

lemma worth_prompt_reply:
  assumes "finite_tasks w" "idle_tasks w tid = Some t" "t_pc t = Await_prompt s n"
  shows "finite_tasks (step_task tid t (handleIdle_prompt fl s n ok) w)
    \<and> loop_balance task_worth sent_worth idle_worth price (step_task tid t (handleIdle_prompt fl s n ok) w) + price \<le> loop_balance task_worth sent_worth idle_worth price w"
proof -
  obtain c w' where h: "handleIdle_prompt fl s n ok w = (c, w')" by force
  then have "(\<exists>f. w' = w\<lparr>disk := f\<rparr>) \<and> (c = Finished \<or> c = Threw)"
    using failure_ends[of fl "s\<lparr>iteration := n\<rparr>" w c w']
    by (cases ok) (auto simp: handleIdle_prompt_def intro: exI[of _ "disk w"])
  then obtain f where "w' = w\<lparr>disk := f\<rparr>" "c = Finished \<or> c = Threw" by blast
  with h assms(3) show ?thesis by (intro worth_segment[OF assms(1,2)]) (auto intro!: worth_ended)
qed

lemma worth_event:
  assumes "finite_tasks w" "markers_ok w"
  shows "finite_tasks (handle_event fl type props w)
    \<and> loop_balance task_worth sent_worth idle_worth price (handle_event fl type props w) \<le> loop_balance task_worth sent_worth idle_worth price w + worth_of idle_worth (idle_session (Event type props, fl))"
proof (cases "decode_loop_event type props")
  case (Deleted sid)
  obtain s w1 where r: "read_world fl w = (s, w1)" by force
  note q = loop_balance_quiet[OF quiet_read[OF r]] loop_balance_quiet[OF quiet_clear[of w1 fl]]
  with Deleted assms r show ?thesis
    by (simp add: handle_event_def session_deleted_def Let_def split: option.split)
next
  case (Idle sid)
  with worth_process[OF assms, of fl sid] show ?thesis by (simp add: handle_event_def)
qed (use assms in \<open>simp add: handle_event_def\<close>)

lemma worth_check_begin:
  assumes "finite_tasks w"
  shows "finite_tasks (current_status_begin fl w) \<and> loop_balance task_worth sent_worth idle_worth price (current_status_begin fl w) \<le> loop_balance task_worth sent_worth idle_worth price w + check_worth"
proof -
  obtain s w1 where r: "read_world fl w = (s, w1)" by force
  have q: "loop_balance task_worth sent_worth idle_worth price w1 = loop_balance task_worth sent_worth idle_worth price w" "finite_tasks w1" using loop_balance_quiet[OF quiet_read[OF r]] assms by simp_all
  have "loop_balance task_worth sent_worth idle_worth price (w1\<lparr>status_tasks := (status_tasks w1)(i \<mapsto> x)\<rparr>) \<le> loop_balance task_worth sent_worth idle_worth price w1 + check_worth" for i x
    using total_insert[of "status_tasks w1" "\<lambda>sid. idle_worth sid + price" i x] q(2) worth_check[of x]
    by (simp add: loop_balance_def finite_tasks_def)
  moreover have "finite_tasks (w1\<lparr>status_tasks := (status_tasks w1)(i \<mapsto> x), next_id := n\<rparr>)" for i x n
    using q(2) by (simp add: finite_tasks_def)
  ultimately show ?thesis using r q by (simp add: current_status_begin_def split: option.split)
qed

lemma worth_check_reply:
  assumes "finite_tasks w" "markers_ok w" "status_tasks w tid = Some sid"
  shows "finite_tasks (current_status_resume fl tid sid r w) \<and> loop_balance task_worth sent_worth idle_worth price (current_status_resume fl tid sid r w) + price \<le> loop_balance task_worth sent_worth idle_worth price w"
proof -
  let ?w = "w\<lparr>status_tasks := (status_tasks w)(tid := None)\<rparr>"
  have "loop_balance task_worth sent_worth idle_worth price ?w + (idle_worth sid + price) = loop_balance task_worth sent_worth idle_worth price w"
    using total_remove[of "status_tasks w" tid sid "\<lambda>sid. idle_worth sid + price"] assms(1,3)
    by (simp add: loop_balance_def finite_tasks_def)
  moreover have "finite_tasks ?w" "markers_ok ?w" using assms by (auto simp: finite_tasks_def markers_ok_def)
  ultimately show ?thesis using worth_process[of ?w fl sid]
    by (auto simp: current_status_resume_def Let_def split: status_reply.split)
qed

lemma worth_quiet: "quiet w w' \<Longrightarrow> finite_tasks w \<Longrightarrow> finite_tasks w' \<and> loop_balance task_worth sent_worth idle_worth price w' \<le> loop_balance task_worth sent_worth idle_worth price w"
  by (simp add: loop_balance_quiet)

lemma worth_step:
  assumes "sane w" "loop_step w a w'"
  shows "finite_tasks w' \<and> loop_balance task_worth sent_worth idle_worth price w' + price * of_bool (handler_step a) \<le> loop_balance task_worth sent_worth idle_worth price w + loop_credit idle_worth check_worth a"
proof -
  have w: "finite_tasks w" "markers_ok w" "loop_inv w" using assms(1) by (simp_all add: sane_def)
  from assms(2) show ?thesis
  proof (cases rule: loop_step.cases)
    case (event type props fl)
    with worth_event[OF w(1,2), of fl type props] show ?thesis by (simp add: loop_credit_def)
  next
    case (kind tid t s r fl)
    with worth_kind_reply[OF w(1) kind(3,4), of fl r] show ?thesis by simp
  next
    case (messages tid t s m fl)
    then have "sessionID s = t_session t" using w(3) by (auto simp: loop_inv_def copy_ok_def)
    with messages worth_messages_reply[OF w(1) messages(3,4) this, of fl m] show ?thesis by simp
  next
    case (prompt tid t s n ok fl)
    with worth_prompt_reply[OF w(1) prompt(3,4), of fl ok] show ?thesis by simp
  next
    case (continue tid t fl)
    with worth_continue[OF w(1) continue(3,4), of fl] show ?thesis by simp
  next
    case (start_reply tid st uuid r fl)
    obtain f u where "snd (loop_start_resume fl st r uuid (w\<lparr>start_tasks := (start_tasks w)(tid := None)\<rparr>))
        = w\<lparr>start_tasks := (start_tasks w)(tid := None), disk := f, used_runs := u\<rparr>" by (rule start_reply_frame)
    with start_reply w show ?thesis by simp
  next
    case (init_status fl)
    with worth_check_begin[OF w(1), of fl] show ?thesis by (simp add: loop_credit_def)
  next
    case (status_reply tid sid' r fl)
    with worth_check_reply[OF w(1,2) status_reply(3), of fl r] show ?thesis by simp
  next
    case (restart fl)
    then show ?thesis by (simp add: restart_def loop_balance_def finite_tasks_def)
  qed (use worth_quiet[OF start_begin_quiet w(1)] worth_quiet[OF stop_quiet w(1)] in \<open>fastforce simp: loop_credit_def\<close>)+
qed

end

text \<open>Every ledger is an account of the plugin's runs.\<close>

sublocale loop_ledger \<subseteq> account: credited is_init benign_step sane
  "loop_balance task_worth sent_worth idle_worth price" "\<lambda>a. price * of_bool (handler_step a)"
  "loop_credit idle_worth check_worth"
proof unfold_locales
  fix w w' :: world and a
  show "is_init w \<Longrightarrow> sane w" by (rule sane_init)
  show "sane w \<Longrightarrow> benign_step w a w' \<Longrightarrow> sane w'"
    using worth_step[of w a w'] step_markers[of w a w'] benign_step_inv[of w a w']
    by (auto simp: sane_def benign_step_def)
  show "is_init w \<Longrightarrow> loop_balance task_worth sent_worth idle_worth price w = 0"
    by (auto simp: is_init_def init_world_def loop_balance_def)
  show "loop_balance task_worth sent_worth idle_worth price w' + price * of_bool (handler_step a)
      \<le> loop_balance task_worth sent_worth idle_worth price w + loop_credit idle_worth check_worth a"
    if "sane w" "benign_step w a w'"
    using that worth_step[of w a w'] by (simp add: benign_step_def)
qed

section \<open>Continuations are caused by wake-ups\<close>

fun wakes :: "string \<Rightarrow> action \<times> faults \<Rightarrow> bool" where
  "wakes sid (Event type props, fl) = (decode_loop_event type props = Idle sid)"
| "wakes sid (Init_status, fl) = True"
| "wakes sid _ = False"

definition may_prompt :: "string \<Rightarrow> idle_task \<Rightarrow> bool" where
  "may_prompt sid t \<longleftrightarrow> t_session t = sid
     \<and> (case t_pc t of Await_kind _ \<Rightarrow> True | Await_messages _ \<Rightarrow> True | _ \<Rightarrow> False)"

definition will_rerun :: "string \<Rightarrow> idle_task \<Rightarrow> bool" where
  "will_rerun sid t \<longleftrightarrow> t_session t = sid \<and> t_pending t \<and> \<not> t_rerun t"

text \<open>One unit for each prompt of a session that is sent or may still be sent; steps are free.\<close>

interpretation prompt_ledger: loop_ledger
  "\<lambda>t. of_bool (may_prompt sid t) + of_bool (will_rerun sid t)" "\<lambda>c. of_bool (p_session c = sid)"
  "\<lambda>s. of_bool (s = sid)" 1 0 for sid
  by unfold_locales
    (auto simp: may_prompt_def will_rerun_def begun_def prompt_of_def split: pc.splits)

lemma wake_credit: "loop_credit (\<lambda>s. of_bool (s = sid)) 1 = (\<lambda>a. of_bool (wakes sid a))"
proof
  fix a
  show "loop_credit (\<lambda>s. of_bool (s = sid)) 1 a = of_bool (wakes sid a)"
    by (cases "(sid, a)" rule: wakes.cases) (simp_all add: loop_credit_def split: loop_event.split)
qed

text \<open>C5: No continuation without a wake-up of its own.  In every run from the start of the
  plugin, with restarts, faults, failing requests and any interleaving of handlers, the
  continuation prompts sent to a session are at most its idle events and the checks made at
  plugin start: neither the re-run of a handler, nor a duplicate of an event that coalesced,
  nor a late reply sends one of its own.\<close>

theorem prompts_per_wakeup:
  assumes "is_init w" and "run benign_step w acts w'"
  shows "length (filter (\<lambda>c. p_session c = sid) (prompts w')) \<le> length (filter (wakes sid) acts)"
  using prompt_ledger.account.balance_from_start[OF assms, of sid]
  unfolding wake_credit by (simp add: sum_matching loop_balance_def)

text \<open>Three idle events of which the second and the third coalesce: the handler runs twice and
  sends two continuations.\<close>

definition coalescing :: "(action \<times> faults) list" where
  "coalescing = quietly (fresh_loop 5 @ [idle_event ''s'', idle_event ''s'', idle_event ''s'']
     @ tl (busy_round ''s'' 1) @ tl (busy_round ''s'' 1))"

theorem prompts_per_wakeup_witness:
  "\<exists>w'. run benign_step (init_world ''/p'') coalescing w'
     \<and> map p_session (prompts w') = [''s'', ''s''] \<and> 2 \<le> length (filter (wakes ''s'') coalescing)
     \<and> length (filter (wakes ''s'') coalescing) = 3"
proof -
  have "map_option (\<lambda>w. map p_session (prompts w)) (do_benign (init_world ''/p'') coalescing)
      = Some [''s'', ''s'']" by code_simp
  then obtain w' where w: "do_benign (init_world ''/p'') coalescing = Some w'"
    "map p_session (prompts w') = [''s'', ''s'']" by auto
  have "is_init (init_world ''/p'')" by (auto simp: is_init_def)
  moreover have "length (filter (\<lambda>c. p_session c = ''s'') (prompts w')) = 2" using w(2) by auto
  ultimately have "2 \<le> length (filter (wakes ''s'') coalescing)"
    using prompts_per_wakeup[OF _ do_benign_run[OF w(1)], of "''s''"] by simp
  moreover have "length (filter (wakes ''s'') coalescing) = 3" by code_simp
  ultimately show ?thesis using do_benign_run[OF w(1)] w(2) by (intro exI[of _ w'] conjI)
qed

section \<open>Wake-ups cause a bounded amount of work\<close>

text \<open>The steps a handler can still take: those of its pass, and of a second one.\<close>

fun pass_left :: "pc \<Rightarrow> nat" where
  "pass_left (Await_kind s) = 4"
| "pass_left (Await_messages s) = 3"
| "pass_left (Await_prompt s n) = 2"
| "pass_left Finished = 1"
| "pass_left Threw = 1"

definition handler_left :: "idle_task \<Rightarrow> nat" where
  "handler_left t = (if t_rerun t then 0 else 4) + pass_left (t_pc t)"

lemma pass_left_bounds: "1 \<le> pass_left c" "pass_left c \<le> 4" "held c = None \<Longrightarrow> pass_left c = 1"
    "held c \<noteq> None \<Longrightarrow> 2 \<le> pass_left c"
  by (cases c; simp)+

interpretation handler_ledger: loop_ledger handler_left "\<lambda>_. 0" "\<lambda>_. 8" 9 1
proof unfold_locales
  fix t :: idle_task and c
  show "1 \<le> handler_left t" using pass_left_bounds(1)[of "t_pc t"] by (simp add: handler_left_def)
  show "handler_left (t\<lparr>t_pc := c\<rparr>) + 1 \<le> handler_left t" if "held (t_pc t) \<noteq> None" "held c = None"
    using pass_left_bounds(3)[OF that(2)] pass_left_bounds(4)[OF that(1)] by (simp add: handler_left_def)
  show "handler_left (t\<lparr>t_rerun := True, t_pending := False, t_pc := c\<rparr>) + 1 \<le> handler_left t"
    if "t_pc t = Finished" "\<not> t_rerun t"
    using that pass_left_bounds(2)[of c] by (simp add: handler_left_def)
qed (auto simp: handler_left_def intro: pass_left_bounds(2))

lemma handler_credit: "sum_list (map (loop_credit (\<lambda>_. 8) 9) acts) =
    8 * length (filter (\<lambda>a. idle_session a \<noteq> None) acts) + 9 * length (filter start_check acts)"
  by (induction acts) (simp_all add: loop_credit_def worth_of_def split: option.split)

text \<open>C7: No wake-up sets off endless work.  In every run, whatever interleaves, fails or
  restarts, the replies and continuations of handlers are at most eight for each idle event,
  and nine for each check at a plugin start: every handler ends, after at most two passes,
  and nothing is asked again on its own.\<close>

theorem handler_steps_bounded:
  assumes "is_init w" and "run benign_step w acts w'"
  shows "length (filter handler_step acts)
    \<le> 8 * length (filter (\<lambda>a. idle_session a \<noteq> None) acts) + 9 * length (filter start_check acts)"
  using handler_ledger.account.balance_from_start[OF assms] sum_matching[of handler_step acts]
  unfolding handler_credit by simp

theorem handler_steps_bounded_witness:
  "\<exists>w'. run benign_step (init_world ''/p'') coalescing w' \<and> length (filter handler_step coalescing) = 8
     \<and> 8 \<le> 8 * length (filter (\<lambda>a. idle_session a \<noteq> None) coalescing) + 9 * length (filter start_check coalescing)"
proof -
  have "map_option (\<lambda>w. length (prompts w)) (do_benign (init_world ''/p'') coalescing) = Some 2" by code_simp
  then obtain w' where w: "do_benign (init_world ''/p'') coalescing = Some w'" by auto
  have "is_init (init_world ''/p'')" by (auto simp: is_init_def)
  note b = handler_steps_bounded[OF this do_benign_run[OF w]]
  have "length (filter handler_step coalescing) = 8" by code_simp
  with b do_benign_run[OF w] show ?thesis by (intro exI[of _ w'] conjI) simp_all
qed

section \<open>A wake-up that is lost\<close>

text \<open>A world without handlers and checks sends nothing until it is woken up.\<close>

definition sent_count :: "string \<Rightarrow> world \<Rightarrow> nat" where
  "sent_count sid w = length (filter (\<lambda>c. p_session c = sid) (prompts w))"

lemma asleep:
  assumes "sane w" "idle_tasks w = Map.empty" "status_tasks w = Map.empty"
    and "run benign_step w acts w'" "filter (wakes sid) acts = []"
  shows "sent_count sid w' \<le> sent_count sid w"
  using prompt_ledger.account.balance_run[OF assms(4,1), of sid] assms(2,3,5)
  unfolding wake_credit by (simp add: sum_matching loop_balance_def sent_count_def)

text \<open>Turns whose idle event arrives, as the call of \<open>session.prompt\<close> waits for the end of the
  turn, before the reply to that call.\<close>

definition early_idles :: "(action \<times> faults) list" where
  "early_idles = quietly (fresh_loop 20
     @ [idle_event ''s'', Kind_reply 1 root_reply, Messages_reply 1 (says ''not yet''),
        idle_event ''s'', Prompt_reply 1 True, Continue 1,
        Kind_reply 1 root_reply, Messages_reply 1 (says ''not yet''),
        idle_event ''s'', Prompt_reply 1 True, Continue 1])"

text \<open>C38: The loop can stall.  When the idle event of each turn arrives before the reply to
  the prompt of that turn, the second prompt is sent by the re-run of the handler, and the
  idle event of its turn is noted but never acted upon: all three turns have ended, the loop
  is active at 2 of 20, no handler runs, and whatever else happens, no continuation is sent
  until something announces another idle state of a session that is already idle.\<close>

theorem early_idle_lost:
  "\<exists>w. run benign_step (init_world ''/p'') early_idles w
     \<and> live w = Some ((sample_state 20)\<lparr>iteration := 2\<rparr>) \<and> length (filter (wakes ''s'') early_idles) = 3
     \<and> idle_tasks w = Map.empty
     \<and> (\<forall>acts w'. run benign_step w acts w' \<longrightarrow> filter (wakes ''s'') acts = []
          \<longrightarrow> length (filter (\<lambda>c. p_session c = ''s'') (prompts w')) \<le> 2)"
proof -
  have "map_option (\<lambda>w. (live w, next_id w, map (idle_tasks w) [0, 1], map p_session (prompts w)))
      (do_benign (init_world ''/p'') early_idles)
    = Some (Some ((sample_state 20)\<lparr>iteration := 2\<rparr>), 2, [None, None], [''s'', ''s''])"
    by code_simp
  then obtain w where w: "do_benign (init_world ''/p'') early_idles = Some w"
    "live w = Some ((sample_state 20)\<lparr>iteration := 2\<rparr>)" "next_id w = 2"
    "idle_tasks w 0 = None" "idle_tasks w 1 = None" "map p_session (prompts w) = [''s'', ''s'']"
    by auto
  note r = do_benign_run[OF w(1)]
  have init: "is_init (init_world ''/p'')" by (auto simp: is_init_def)
  have "sane w" by (rule prompt_ledger.account.inv_run[OF r sane_init[OF init]])
  moreover have "idle_tasks w = Map.empty"
  proof
    fix tid
    have "idle_tasks w tid = None \<or> tid < 2"
      using \<open>sane w\<close> w(3) by (cases "idle_tasks w tid") (auto simp: sane_def loop_inv_def marker_inv_def)
    then show "idle_tasks w tid = None" using w(4,5) by (auto simp: less_2_cases_iff)
  qed
  moreover have "status_tasks w = Map.empty"
    by (rule run_status[OF r])
      (simp_all add: init_world_def early_idles_def quietly_def fresh_loop_def sample_start_def idle_event_def)
  moreover have "length (filter (wakes ''s'') early_idles) = 3" by code_simp
  moreover have "sent_count ''s'' w = 2" using w(6) by (auto simp: sent_count_def)
  ultimately show ?thesis using r w(2) asleep[of w _ _ "''s''"] unfolding sent_count_def
    by (intro exI[of _ w]) auto
qed

theorem early_idle_lost_witness:
  "\<exists>w w'. live w = Some ((sample_state 20)\<lparr>iteration := 2\<rparr>) \<and> run benign_step w (quietly [Stop]) w'
     \<and> length (filter (\<lambda>c. p_session c = ''s'') (prompts w')) \<le> 2"
proof -
  obtain w where w: "live w = Some ((sample_state 20)\<lparr>iteration := 2\<rparr>)"
    "\<And>acts w'. run benign_step w acts w' \<Longrightarrow> filter (wakes ''s'') acts = [] \<Longrightarrow>
       length (filter (\<lambda>c. p_session c = ''s'') (prompts w')) \<le> 2"
    using early_idle_lost by blast
  have "run benign_step w (quietly [Stop]) (snd (loop_stop no_faults w))"
    unfolding quietly_def list.map
    by (rule run_more[OF _ run_done]) (simp add: benign_step_def benign_def loop_step.stop)
  with w show ?thesis by (fastforce simp: quietly_def)
qed

end
