(* ===== verification/Ntfy_Duration.thy ===== *)
theory Ntfy_Duration
  imports Js_Double
begin

text \<open>
  \<open>plugins/ntfy/src/config.ts\<close>, durations: the two regular expressions as functions and
  \<open>parseDuration\<close> in double arithmetic, with the exactness of that arithmetic on
  integers below \<open>2 ^ 53\<close>.
\<close>

section \<open>The regular expressions\<close>

definition is_unit :: "char \<Rightarrow> bool" where
  "is_unit c \<longleftrightarrow> c \<in> set ''hmsHMS''"

text \<open>The number \<open>\d+(?:\.\d+)?\<close> at the start of a text, and the rest.  No shorter match
  of it can be followed by white space or a unit, so the greedy one decides.\<close>

definition number_at :: "string \<Rightarrow> (string \<times> string) option" where
  "number_at s =
     (let ds = takeWhile is_digit s; r = dropWhile is_digit s;
          fs = takeWhile is_digit (drop 1 r)
      in if ds = [] then None
         else if take 1 r = ''.'' \<and> fs \<noteq> [] then Some (ds @ ''.'' @ fs, drop (1 + length fs) r)
         else Some (ds, r))"

text \<open>\<open>(\d+(?:\.\d+)?)\s*([hms])\<close> at the start of a text: the two groups and the rest.\<close>

definition segment_at :: "string \<Rightarrow> (string \<times> char \<times> string) option" where
  "segment_at s =
     (case number_at s of
        None \<Rightarrow> None
      | Some (v, r) \<Rightarrow>
          (case dropWhile is_ws r of
             [] \<Rightarrow> None
           | u # rest \<Rightarrow> if is_unit u then Some (v, u, rest) else None))"

lemma number_at_shorter: "number_at s = Some (v, r) \<Longrightarrow> length r < length s"
proof -
  assume n: "number_at s = Some (v, r)"
  then have "takeWhile is_digit s \<noteq> []" and "length r \<le> length (dropWhile is_digit s)"
    by (auto simp: number_at_def Let_def split: if_splits)
  moreover have "length (takeWhile is_digit s) + length (dropWhile is_digit s) = length s"
    by (metis length_append takeWhile_dropWhile_id)
  ultimately show ?thesis by (cases "takeWhile is_digit s") auto
qed

lemma segment_at_shorter: "segment_at s = Some (v, u, r) \<Longrightarrow> length r < length s"
proof -
  assume "segment_at s = Some (v, u, r)"
  then obtain r' where "number_at s = Some (v, r')" "dropWhile is_ws r' = u # r"
    by (auto simp: segment_at_def split: option.splits list.splits if_splits)
  then show ?thesis
    using number_at_shorter[of s v r'] length_dropWhile_le[of is_ws r'] by simp
qed

text \<open>\<open>DURATION_RE\<close>: one or more segments with white space around each, up to the end.\<close>

function is_duration :: "string \<Rightarrow> bool" where
  "is_duration s =
     (case segment_at (dropWhile is_ws s) of
        None \<Rightarrow> False
      | Some (v, u, r) \<Rightarrow> dropWhile is_ws r = [] \<or> is_duration r)"
  by pat_completeness auto
termination
proof (relation "measure length", simp)
  fix s v u r x y
  assume "segment_at (dropWhile is_ws s) = Some x" "(v, y) = x" "(u, r) = y"
  then have "length r < length (dropWhile is_ws s)" by (auto dest: segment_at_shorter)
  then show "(r, s) \<in> measure length"
    using length_dropWhile_le[of is_ws s] by simp
qed

declare is_duration.simps [simp del]

text \<open>\<open>matchAll\<close> with \<open>DURATION_SEGMENT_RE\<close>: the segments wherever they start.\<close>

function segments :: "string \<Rightarrow> (string \<times> char) list" where
  "segments [] = []"
| "segments (c # s) =
     (case segment_at (c # s) of
        None \<Rightarrow> segments s
      | Some (v, u, r) \<Rightarrow> (v, u) # segments r)"
  by pat_completeness auto
termination
  by (relation "measure length") (auto dest: segment_at_shorter)

section \<open>parseDuration\<close>

text \<open>\<open>parseFloat\<close> of digits with an optional fraction.\<close>

definition parse_float :: "string \<Rightarrow> jsnum" where
  "parse_float v =
     (let ds = takeWhile is_digit v; fs = drop 1 (dropWhile is_digit v)
      in round_double (of_int (digits_val 0 (ds @ fs)) / 10 ^ length fs))"

definition segment_seconds :: "string \<times> char \<Rightarrow> jsnum" where
  "segment_seconds seg =
     (let value = parse_float (fst seg); u = snd seg
      in if u \<in> set ''hH'' then num_mult value 3600
         else if u \<in> set ''mM'' then num_mult value 60
         else value)"

definition total_seconds :: "(string \<times> char) list \<Rightarrow> jsnum" where
  "total_seconds segs = foldl (\<lambda>t seg. num_add t (segment_seconds seg)) (Fin 0) segs"

definition parseDuration :: "string \<Rightarrow> string + jsnum" where
  "parseDuration s =
     (if \<not> is_duration s then Inl s
      else Inr (num_round (num_mult (total_seconds (segments s)) 1000)))"


section \<open>Integer durations are exact\<close>

definition unit_weight :: "char \<Rightarrow> int" where
  "unit_weight u = (if u \<in> set ''hH'' then 3600 else if u \<in> set ''mM'' then 60 else 1)"

text \<open>A segment with an integer count, as the operator writes it: white space before the
  number and between number and unit.\<close>

type_synonym int_segment = "string \<times> nat \<times> string \<times> char"

fun segment_text :: "int_segment \<Rightarrow> string" where
  "segment_text (b, n, m, u) = b @ show_nat n @ m @ [u]"

fun segment_ok :: "int_segment \<Rightarrow> bool" where
  "segment_ok (b, n, m, u) = (list_all is_ws b \<and> list_all is_ws m \<and> is_unit u)"

fun segment_sum :: "int_segment list \<Rightarrow> int" where
  "segment_sum [] = 0"
| "segment_sum ((b, n, m, u) # segs) = int n * unit_weight u + segment_sum segs"

lemma is_unit_class: "is_unit u \<Longrightarrow> \<not> is_ws u \<and> \<not> is_digit u \<and> u \<noteq> CHR ''.''"
  by (auto simp: is_unit_def char_class_defs)

lemma drop_ws: "list_all is_ws b \<Longrightarrow> dropWhile is_ws (b @ s) = dropWhile is_ws s"
  by (induction b) auto

lemma number_show_nat:
  assumes "s = [] \<or> (\<not> is_digit (hd s) \<and> hd s \<noteq> CHR ''.'')"
  shows "number_at (show_nat n @ s) = Some (show_nat n, s)"
proof -
  have d: "list_all is_digit (show_nat n)" "show_nat n \<noteq> []" using show_nat_digits by blast+
  then have "takeWhile is_digit (show_nat n @ s) = show_nat n @ takeWhile is_digit s"
    "dropWhile is_digit (show_nat n @ s) = dropWhile is_digit s"
    by (simp_all add: list_all_iff takeWhile_append2 dropWhile_append2)
  moreover have "takeWhile is_digit s = []" "dropWhile is_digit s = s" "take 1 s \<noteq> ''.''"
    using assms by (cases s; simp)+
  ultimately show ?thesis using d(2) unfolding number_at_def Let_def by (simp del: One_nat_def)
qed

lemma segment_show_nat:
  assumes "list_all is_ws m" "is_unit u"
  shows "segment_at (show_nat n @ m @ u # s) = Some (show_nat n, u, s)"
proof -
  have "\<not> is_digit (hd (m @ u # s)) \<and> hd (m @ u # s) \<noteq> CHR ''.''"
    using assms is_unit_class[of u] by (cases m) (auto simp: char_class_defs)
  then show ?thesis
    using assms is_unit_class[of u]
    by (simp add: segment_at_def number_show_nat drop_ws)
qed


lemma segment_at_text:
  "segment_ok (b, n, m, u) \<Longrightarrow>
   segment_at (dropWhile is_ws (segment_text (b, n, m, u) @ s)) = Some (show_nat n, u, s)"
proof -
  assume ok: "segment_ok (b, n, m, u)"
  have "show_nat n \<noteq> []" "is_digit (hd (show_nat n))"
    using show_nat_digits[of n] by (auto simp: list_all_iff)
  then have "dropWhile is_ws (show_nat n @ m @ u # s) = show_nat n @ m @ u # s"
    by (simp add: dropWhile_id_iff is_digit_not_ws)
  with ok show ?thesis by (simp add: drop_ws segment_show_nat)
qed

lemma segment_at_ws: "is_ws c \<Longrightarrow> segment_at (c # s) = None"
  using is_digit_not_ws[of c] by (auto simp: segment_at_def number_at_def Let_def)

lemma segments_ws: "list_all is_ws b \<Longrightarrow> segments (b @ s) = segments s"
  by (induction b) (auto simp: segment_at_ws)

lemma segments_text:
  "list_all segment_ok segs \<Longrightarrow> list_all is_ws t \<Longrightarrow>
   segments (concat (map segment_text segs) @ t) = map (\<lambda>(b, n, m, u). (show_nat n, u)) segs"
proof (induction segs)
  case Nil
  then show ?case using segments_ws[of t "[]"] by simp
next
  case (Cons seg segs)
  obtain b n m u where seg: "seg = (b, n, m, u)" by (cases seg)
  let ?r = "concat (map segment_text segs) @ t"
  have "segment_at (show_nat n @ m @ u # ?r) = Some (show_nat n, u, ?r)"
    using Cons.prems(1) by (intro segment_show_nat) (simp_all add: seg)
  moreover obtain c s where "show_nat n = c # s" using show_nat_digits[of n] by (cases "show_nat n") auto
  ultimately have "segments (show_nat n @ m @ u # ?r) = (show_nat n, u) # segments ?r"
    by simp
  with Cons show ?case by (simp add: seg segments_ws)
qed

lemma is_duration_text:
  "segs \<noteq> [] \<Longrightarrow> list_all segment_ok segs \<Longrightarrow> list_all is_ws t \<Longrightarrow>
   is_duration (concat (map segment_text segs) @ t)"
proof (induction segs)
  case (Cons seg segs)
  obtain b n m u where seg: "seg = (b, n, m, u)" by (cases seg)
  let ?r = "concat (map segment_text segs) @ t"
  have "segment_at (dropWhile is_ws (segment_text (b, n, m, u) @ ?r)) = Some (show_nat n, u, ?r)"
    using Cons.prems(2) by (intro segment_at_text) (simp add: seg)
  moreover have "dropWhile is_ws ?r = [] \<or> is_duration ?r"
    using Cons by (cases segs) (auto simp: list_all_iff)
  ultimately show ?case
    by (subst is_duration.simps) (simp add: seg)
qed simp

lemma parse_float_show_nat:
  assumes "int n < 2 ^ 53"
  shows "parse_float (show_nat n) = Fin (of_int (int n))"
proof -
  have d: "takeWhile is_digit (show_nat n) = show_nat n" "dropWhile is_digit (show_nat n) = []"
    using show_nat_digits[of n] by (simp_all add: list_all_iff takeWhile_eq_all_conv)
  show ?thesis
    using show_nat_digits[of n] round_double_int[of "int n"] assms
    unfolding parse_float_def Let_def d by simp
qed

lemma unit_weight_pos: "1 \<le> unit_weight u"
  by (simp add: unit_weight_def)

lemma segment_seconds_int:
  assumes "int n * unit_weight u < 2 ^ 53"
  shows "segment_seconds (show_nat n, u) = Fin (of_int (int n * unit_weight u))"
proof -
  have "int n \<le> int n * unit_weight u"
    using unit_weight_pos[of u] mult_left_mono[of 1 "unit_weight u" "int n"] by simp
  with assms have n: "parse_float (show_nat n) = Fin (of_int (int n))"
    by (intro parse_float_show_nat) simp
  have "round_double (of_int (int n * unit_weight u)) = Fin (of_int (int n * unit_weight u))"
    using assms unit_weight_pos[of u] by (intro round_double_int) simp_all
  then show ?thesis
    by (auto simp: segment_seconds_def Let_def n unit_weight_def split: if_splits)
qed

lemma segment_sum_nonneg: "0 \<le> segment_sum segs"
  by (induction segs rule: segment_sum.induct) (use unit_weight_pos in \<open>auto simp: order_trans[OF zero_le_one]\<close>)

lemma total_seconds_int:
  "0 \<le> a \<Longrightarrow> a + segment_sum segs < 2 ^ 53 \<Longrightarrow>
   foldl (\<lambda>t seg. num_add t (segment_seconds seg)) (Fin (of_int a))
     (map (\<lambda>(b, n, m, u). (show_nat n, u)) segs) = Fin (of_int (a + segment_sum segs))"
proof (induction segs arbitrary: a)
  case (Cons seg segs)
  obtain b n m u where seg: "seg = (b, n, m, u)" by (cases seg)
  let ?k = "int n * unit_weight u"
  have k: "0 \<le> ?k" using unit_weight_pos[of u] by simp
  then have small: "?k < 2 ^ 53" "a + ?k < 2 ^ 53"
    using Cons.prems segment_sum_nonneg[of segs] by (simp_all add: seg)
  have "num_add (Fin (of_int a)) (segment_seconds (show_nat n, u)) = Fin (of_int (a + ?k))"
    using segment_seconds_int[OF small(1)] round_double_int[of "a + ?k"] Cons.prems(1) k small(2)
    by simp
  with Cons.IH[of "a + ?k"] Cons.prems k show ?case by (simp add: seg add.assoc)
qed simp


lemma integer_duration:
  assumes "segs \<noteq> []" and "list_all segment_ok segs" and "list_all is_ws t"
    and "1000 * segment_sum segs < 2 ^ 53"
  shows "parseDuration (concat (map segment_text segs) @ t)
    = Inr (int_num (1000 * segment_sum segs))"
proof -
  let ?k = "segment_sum segs"
  have k: "0 \<le> ?k" by (rule segment_sum_nonneg)
  have "total_seconds (segments (concat (map segment_text segs) @ t)) = Fin (of_int ?k)"
    using total_seconds_int[of 0 segs] assms k
    by (simp add: total_seconds_def segments_text[OF assms(2,3)])
  moreover have "num_mult (Fin (of_int ?k)) 1000 = Fin (of_int (1000 * ?k))"
    using round_double_int[of "1000 * ?k"] k assms(4) by (simp add: mult.commute)
  ultimately show ?thesis
    using is_duration_text[OF assms(1-3)]
    unfolding parseDuration_def int_num_def by (simp only: num_round_int simp_thms if_False)
qed

text \<open>C27: Integer durations are exact.  One or more segments, each an integer with a unit
  (in either case, with white space around), parse to the sum of their lengths in
  milliseconds, without rounding error as long as the sum stays below the range where doubles
  represent every integer.\<close>

theorem parseDuration_sum:
  assumes "segs \<noteq> []" and "list_all segment_ok segs" and "list_all is_ws t"
    and "1000 * segment_sum segs < 2 ^ 53"
  shows "parseDuration (concat (map segment_text segs) @ t)
    = Inr (int_num (1000 * segment_sum segs))"
  by (rule integer_duration[OF assms])

lemma show_nat_small:
  "show_nat 1 = ''1''" "show_nat 30 = ''30''" "show_nat 600 = ''600''"
  by code_simp+

theorem parseDuration_sum_witness: "parseDuration ''1h 30m'' = Inr (int_num 5400000)"
  using parseDuration_sum[of "[([], 1, [], CHR ''h''), ('' '', 30, [], CHR ''m'')]" "[]"]
  by (simp add: is_unit_def unit_weight_def char_class_defs show_nat_small[unfolded One_nat_def])

section \<open>Ranges\<close>

text \<open>What a parsed duration can be: a non-negative integer, or positive infinity when the
  number of the text exceeds the doubles.\<close>

definition duration_value :: "jsnum \<Rightarrow> bool" where
  "duration_value n \<longleftrightarrow> n = PosInf \<or> (\<exists>k \<ge> 0. n = int_num k)"

lemma nonneg_total: "nonneg_num (total_seconds segs)"
proof -
  have s: "nonneg_num (segment_seconds seg)" for seg
    by (simp add: segment_seconds_def Let_def parse_float_def nonneg_round nonneg_mult)
  have "nonneg_num t \<Longrightarrow> nonneg_num (foldl (\<lambda>t seg. num_add t (segment_seconds seg)) t segs)" for t
    by (induction segs arbitrary: t) (simp_all add: s nonneg_add)
  then show ?thesis by (simp add: total_seconds_def nonneg_num_def)
qed

lemma parseDuration_value: "parseDuration s = Inr n \<Longrightarrow> duration_value n"
proof -
  assume "parseDuration s = Inr n"
  then have n: "n = num_round (num_mult (total_seconds (segments s)) 1000)"
    by (simp add: parseDuration_def split: if_splits)
  have "nonneg_num (num_mult (total_seconds (segments s)) 1000)"
    by (intro nonneg_mult nonneg_total)
  then show ?thesis
    by (auto simp: n nonneg_num_def duration_value_def int_num_def)
qed

text \<open>Durations have no upper bound.  Every accepted duration is a non-negative whole
  number of milliseconds or infinity; nothing keeps it below the largest delay of the
  runtime's timers, 2147483647 ms, so that an accepted wait of 600 hours is beyond it.\<close>

theorem parseDuration_range:
  "(parseDuration s = Inr n \<longrightarrow> n = PosInf \<or> (\<exists>k \<ge> 0. n = int_num k))
   \<and> parseDuration ''600h'' = Inr (int_num 2160000000) \<and> (2160000000 :: int) > 2147483647"
proof -
  have "parseDuration ''600h'' = Inr (int_num 2160000000)"
    using integer_duration[of "[([], 600, [], CHR ''h'')]" "[]"]
    by (simp add: is_unit_def unit_weight_def show_nat_small)
  then show ?thesis using parseDuration_value[of s n] by (simp add: duration_value_def)
qed


theorem parseDuration_range_witness:
  "parseDuration ''600h'' = Inr (int_num 2160000000)
   \<and> (int_num 2160000000 = PosInf \<or> (\<exists>k \<ge> 0. int_num 2160000000 = int_num k))"
  using parseDuration_range[of "''600h''" "int_num 2160000000"] by blast

end
