(* ===== verification/Ntfy_Config.thy ===== *)
theory Ntfy_Config
  imports Ntfy_Duration Js_Json Node_Path
begin

text \<open>
  \<open>plugins/ntfy/src/config.ts\<close>: the configuration file of the notification plugin,
  from its text over the placeholders in its strings to the validated record.  The message
  of the exception of \<open>JSON.parse\<close> is a parameter.
\<close>

section \<open>Events and the configuration record\<close>

datatype notification_event = Session_idle | Session_error | Permission_asked

fun event_name :: "notification_event \<Rightarrow> string" where
  "event_name Session_idle = ''session.idle''"
| "event_name Session_error = ''session.error''"
| "event_name Permission_asked = ''permission.asked''"

definition NOTIFICATION_EVENTS :: "notification_event list" where
  "NOTIFICATION_EVENTS = [Session_idle, Session_error, Permission_asked]"

text \<open>The list names every event once: it enumerates the type.\<close>

instantiation notification_event :: enum
begin

definition enum_notification_event :: "notification_event list" where
  "enum_notification_event = NOTIFICATION_EVENTS"

definition enum_all_notification_event :: "(notification_event \<Rightarrow> bool) \<Rightarrow> bool" where
  "enum_all_notification_event P \<longleftrightarrow> list_all P NOTIFICATION_EVENTS"

definition enum_ex_notification_event :: "(notification_event \<Rightarrow> bool) \<Rightarrow> bool" where
  "enum_ex_notification_event P \<longleftrightarrow> list_ex P NOTIFICATION_EVENTS"

instance
proof
  show univ: "UNIV = set (enum_class.enum :: notification_event list)"
    by (auto simp: enum_notification_event_def NOTIFICATION_EVENTS_def intro: notification_event.exhaust)
  show "distinct (enum_class.enum :: notification_event list)"
    by (simp add: enum_notification_event_def NOTIFICATION_EVENTS_def)
  show "enum_class.enum_all P \<longleftrightarrow> Ball UNIV P" for P :: "notification_event \<Rightarrow> bool"
    using univ by (auto simp: enum_all_notification_event_def enum_notification_event_def list_all_iff)
  show "enum_class.enum_ex P \<longleftrightarrow> Bex UNIV P" for P :: "notification_event \<Rightarrow> bool"
    using univ by (auto simp: enum_ex_notification_event_def enum_notification_event_def list_ex_iff)
qed

end

record event_config =
  ev_enabled :: bool
  notifyAfterMs :: jsnum

type_synonym template_map = "notification_event \<rightharpoonup> string"

record backend_config =
  topic :: string
  server :: string
  token :: "string option"
  priority :: string
  iconUrl :: "string option"
  fetchTimeoutMs :: jsnum
  title_map :: "template_map option"
  message_map :: "template_map option"

record plugin_config =
  enabled :: bool
  events :: "notification_event \<Rightarrow> event_config"
  backend :: backend_config

definition VALID_PRIORITIES :: "string list" where
  "VALID_PRIORITIES = [''min'', ''low'', ''default'', ''high'', ''max'']"

definition DEFAULT_FETCH_TIMEOUT_MS :: jsnum where
  "DEFAULT_FETCH_TIMEOUT_MS = int_num 10000"

definition defaultEvents :: "notification_event \<Rightarrow> event_config" where
  "defaultEvents e = \<lparr>ev_enabled = True, notifyAfterMs = int_num 0\<rparr>"

section \<open>Errors\<close>

datatype config_error =
    Invalid_duration string
  | Not_a_duration string
  | Env_unset string
  | File_read_failed string string string
  | Unknown_key string string
  | Invalid_event string string
  | Must_be_object string
  | Command_template string
  | No_value string
  | Not_boolean string
  | Not_non_empty_string string
  | Topic_required
  | Priority_not_string
  | Invalid_priority
  | Invalid_json string
  | Config_not_object
  | Config_not_found string
  | Config_unreadable string

definition valid_events_text :: string where
  "valid_events_text = join_with '', '' (map event_name NOTIFICATION_EVENTS)"

text \<open>The messages of the exceptions.  The plugin decides on the message of a failed load
  whether it is disabled.\<close>

fun error_message :: "config_error \<Rightarrow> string" where
  "error_message (Invalid_duration s) = ''ntfy: invalid duration \"'' @ s
     @ ''\"; expected shorthand like \"3s\", \"5m\", \"1h30m\"''"
| "error_message (Not_a_duration f) = ''ntfy: '' @ f @ '' must be a non-empty duration string''"
| "error_message (Env_unset v) = ''ntfy: config {env:'' @ v @ ''} -- env var unset''"
| "error_message (File_read_failed p r m) =
     ''ntfy: config {file:'' @ p @ ''} -- read failed at '' @ r @ '': '' @ m"
| "error_message (Unknown_key place k) = ''ntfy: unknown key '' @ place @ ''.'' @ k"
| "error_message (Invalid_event k place) = ''ntfy: invalid event '' @ [CHR 0x27] @ k @ [CHR 0x27]
     @ '' in '' @ place @ ''; valid: '' @ valid_events_text"
| "error_message (Must_be_object f) = ''ntfy: '' @ f @ '' must be an object''"
| "error_message (Command_template f) = ''ntfy: '' @ f @ '': '' @ [CHR 0x27] @ ''command'' @ [CHR 0x27]
     @ '' template is no longer supported. Use {value: \"...\"} with {env:VAR} / {file:path}''
     @ '' substitution for dynamic content.''"
| "error_message (No_value f) = ''ntfy: '' @ f @ '' must contain a '' @ [CHR 0x27] @ ''value''
     @ [CHR 0x27] @ '' string''"
| "error_message (Not_boolean f) = ''ntfy: '' @ f @ '' must be a boolean''"
| "error_message (Not_non_empty_string f) = ''ntfy: '' @ f @ '' must be a non-empty string''"
| "error_message Topic_required = ''ntfy: backend.topic is required (non-empty string)''"
| "error_message Priority_not_string = ''ntfy: backend.priority must be a string''"
| "error_message Invalid_priority =
     ''ntfy: backend.priority must be one of '' @ join_with '', '' VALID_PRIORITIES"
| "error_message (Invalid_json m) = ''ntfy: invalid JSON in config: '' @ m"
| "error_message Config_not_object = ''ntfy: config must be a JSON object''"
| "error_message (Config_not_found p) = ''ntfy: config not found at '' @ p
     @ ''; create it with at minimum {\"backend\":{\"topic\":\"...\"}}''"
| "error_message (Config_unreadable m) = m"


section \<open>Placeholders\<close>

text \<open>The process environment and the files the configuration refers to (the content of a
  file, or the message of the failed read), and the message of \<open>JSON.parse\<close>.\<close>

record config_host =
  env_var :: "string \<Rightarrow> string option"
  home :: string
  read_file :: "string \<Rightarrow> string + string"
  syntax_message :: "string \<Rightarrow> string"

text \<open>\<open>\{<tag>:([^}]+)\}\<close> anchored at the current position.\<close>

definition placeholder_at :: "string \<Rightarrow> matcher" where
  "placeholder_at opening_text s =
     (if starts_with s opening_text then
        let r = drop (length opening_text) s; k = takeWhile (\<lambda>c. c \<noteq> CHR ''}'') r
        in if k \<noteq> [] \<and> length k < length r then Some (k, length opening_text + length k + 1) else None
      else None)"

definition env_at :: matcher where "env_at = placeholder_at ''{env:''"
definition file_at :: matcher where "file_at = placeholder_at ''{file:''"

lemma placeholder_at_starts:
  "placeholder_at (c # opening_text) s = Some (k, n) \<Longrightarrow> \<exists>t. s = c # t"
  by (auto simp: placeholder_at_def starts_with_iff_prefix prefix_def split: if_splits)

interpretation env_placeholder: placeholder env_at "CHR ''{''"
  by unfold_locales (auto simp: env_at_def dest: placeholder_at_starts)

interpretation file_placeholder: placeholder file_at "CHR ''{''"
  by unfold_locales (auto simp: file_at_def dest: placeholder_at_starts)

definition env_value :: "config_host \<Rightarrow> string \<Rightarrow> config_error + string" where
  "env_value h k = (case env_var h k of None \<Rightarrow> Inl (Env_unset k) | Some v \<Rightarrow> Inr v)"

definition resolve_file :: "config_host \<Rightarrow> string \<Rightarrow> string \<Rightarrow> string" where
  "resolve_file h configDir p =
     (if starts_with p ''/'' then p
      else if starts_with p ''~'' then path_join [home h, drop 1 p]
      else path_join [configDir, p])"

definition file_value :: "config_host \<Rightarrow> string \<Rightarrow> string \<Rightarrow> config_error + string" where
  "file_value h configDir p =
     (let resolved = resolve_file h configDir p
      in case read_file h resolved of
           Inl m \<Rightarrow> Inl (File_read_failed p resolved m)
         | Inr t \<Rightarrow> Inr (trim t))"

definition substituteString :: "config_host \<Rightarrow> string \<Rightarrow> string \<Rightarrow> config_error + string" where
  "substituteString h configDir v =
     ok_bind (scan env_at (env_value h) v) (scan file_at (file_value h configDir))"

fun substituteAll :: "config_host \<Rightarrow> string \<Rightarrow> jsval \<Rightarrow> config_error + jsval"
  and substituteList :: "config_host \<Rightarrow> string \<Rightarrow> jsval list \<Rightarrow> config_error + jsval list"
  and substituteProps ::
    "config_host \<Rightarrow> string \<Rightarrow> (string \<times> jsval) list \<Rightarrow> config_error + (string \<times> jsval) list" where
  "substituteAll h d (JStr s) = ok_bind (substituteString h d s) (\<lambda>t. Inr (JStr t))"
| "substituteAll h d (JArr vs) = ok_bind (substituteList h d vs) (\<lambda>ws. Inr (JArr ws))"
| "substituteAll h d (JObj ps) = ok_bind (substituteProps h d ps) (\<lambda>qs. Inr (JObj qs))"
| "substituteAll h d v = Inr v"
| "substituteList h d [] = Inr []"
| "substituteList h d (v # vs) =
     ok_bind (substituteAll h d v) (\<lambda>w. ok_bind (substituteList h d vs) (\<lambda>ws. Inr (w # ws)))"
| "substituteProps h d [] = Inr []"
| "substituteProps h d ((k, v) # ps) =
     ok_bind (substituteAll h d v) (\<lambda>w. ok_bind (substituteProps h d ps) (\<lambda>qs. Inr ((k, w) # qs)))"

section \<open>Parsers\<close>

text \<open>The objects the parsers see were rebuilt by \<open>substituteAll\<close> with no prototype.\<close>

definition event_of :: "string \<Rightarrow> notification_event option" where
  "event_of k = find (\<lambda>e. event_name e = k) NOTIFICATION_EVENTS"

definition isValidEvent :: "string \<Rightarrow> bool" where
  "isValidEvent k = (\<exists>e \<in> set NOTIFICATION_EVENTS. event_name e = k)"

definition assertKnownKeys ::
  "(string \<times> jsval) list \<Rightarrow> string list \<Rightarrow> string \<Rightarrow> config_error + unit" where
  "assertKnownKeys raw allowed place =
     (case find (\<lambda>k. k \<notin> set allowed) (map fst raw) of
        Some k \<Rightarrow> Inl (Unknown_key place k)
      | None \<Rightarrow> Inr ())"

definition parseRequiredDurationMs :: "jsval \<Rightarrow> string \<Rightarrow> config_error + jsnum" where
  "parseRequiredDurationMs v fieldName =
     (case v of
        JStr s \<Rightarrow> if s = [] then Inl (Not_a_duration fieldName)
          else (case parseDuration s of Inl e \<Rightarrow> Inl (Invalid_duration e) | Inr n \<Rightarrow> Inr n)
      | _ \<Rightarrow> Inl (Not_a_duration fieldName))"

text \<open>One entry of a template map, and the loop over the entries.\<close>

definition parse_template :: "string \<Rightarrow> jsval \<Rightarrow> config_error + string" where
  "parse_template place entry =
     (case entry of
        JObj ps \<Rightarrow>
          ok_bind (assertKnownKeys ps [''value'', ''command''] place) (\<lambda>_.
            if is_string (bare_get ps ''command'') then Inl (Command_template place)
            else (case bare_get ps ''value'' of JStr v \<Rightarrow> Inr v | _ \<Rightarrow> Inl (No_value place)))
      | _ \<Rightarrow> Inl (Must_be_object place))"

fun parseContentTemplateMap ::
  "(string \<times> jsval) list \<Rightarrow> string \<Rightarrow> template_map \<Rightarrow> config_error + template_map" where
  "parseContentTemplateMap [] fieldName result = Inr result"
| "parseContentTemplateMap ((key, entry) # raw) fieldName result =
     (case event_of key of
        None \<Rightarrow> Inl (Invalid_event key (''backend.'' @ fieldName))
      | Some e \<Rightarrow>
          ok_bind (parse_template (''backend.'' @ fieldName @ ''.'' @ key) entry) (\<lambda>v.
            parseContentTemplateMap raw fieldName (result(e \<mapsto> v))))"

definition parseOptionalContentTemplateMap ::
  "jsval \<Rightarrow> string \<Rightarrow> config_error + template_map option" where
  "parseOptionalContentTemplateMap raw fieldName =
     (case raw of
        JUndef \<Rightarrow> Inr None
      | JObj ps \<Rightarrow> ok_bind (parseContentTemplateMap ps fieldName Map.empty) (\<lambda>m. Inr (Some m))
      | _ \<Rightarrow> Inl (Must_be_object (''backend.'' @ fieldName)))"


definition parseEventConfig ::
  "notification_event \<Rightarrow> jsval \<Rightarrow> event_config \<Rightarrow> config_error + event_config" where
  "parseEventConfig e raw defaults =
     (let place = ''events.'' @ event_name e
      in case raw of
           JUndef \<Rightarrow> Inr defaults
         | JObj ps \<Rightarrow>
             ok_bind (assertKnownKeys ps [''enabled'', ''notifyAfter''] place) (\<lambda>_.
             ok_bind (case bare_get ps ''enabled'' of
                        JUndef \<Rightarrow> Inr (ev_enabled defaults)
                      | JBool b \<Rightarrow> Inr b
                      | _ \<Rightarrow> Inl (Not_boolean (place @ ''.enabled''))) (\<lambda>en.
             ok_bind (if bare_get ps ''notifyAfter'' = JUndef then Inr (notifyAfterMs defaults)
                      else parseRequiredDurationMs (bare_get ps ''notifyAfter'') (place @ ''.notifyAfter''))
               (\<lambda>ms. Inr \<lparr>ev_enabled = en, notifyAfterMs = ms\<rparr>)))
         | _ \<Rightarrow> Inl (Must_be_object place))"

definition optional_string :: "jsval \<Rightarrow> string \<Rightarrow> config_error + string option" where
  "optional_string v fieldName =
     (case v of
        JUndef \<Rightarrow> Inr None
      | JStr s \<Rightarrow> if s = [] then Inl (Not_non_empty_string fieldName) else Inr (Some s)
      | _ \<Rightarrow> Inl (Not_non_empty_string fieldName))"

definition parse_priority :: "jsval \<Rightarrow> config_error + string" where
  "parse_priority v =
     (case (if v = JUndef then JStr ''default'' else v) of
        JStr p \<Rightarrow> if p \<in> set VALID_PRIORITIES then Inr p else Inl Invalid_priority
      | _ \<Rightarrow> Inl Priority_not_string)"

definition parse_server :: "jsval \<Rightarrow> config_error + string" where
  "parse_server v =
     (case (if v = JUndef then JStr ''https://ntfy.sh'' else v) of
        JStr s \<Rightarrow> if s = [] then Inl (Not_non_empty_string ''backend.server'') else Inr s
      | _ \<Rightarrow> Inl (Not_non_empty_string ''backend.server''))"

text \<open>\<open>server.replace(/\/$/, "")\<close>.\<close>

definition strip_slash :: "string \<Rightarrow> string" where
  "strip_slash s = (if s \<noteq> [] \<and> last s = CHR ''/'' then butlast s else s)"

definition backend_keys :: "string list" where
  "backend_keys = [''topic'', ''server'', ''token'', ''priority'', ''iconUrl'', ''fetchTimeout'',
     ''title'', ''message'']"

definition parseBackendConfig :: "jsval \<Rightarrow> config_error + backend_config" where
  "parseBackendConfig raw =
     (case raw of
        JObj ps \<Rightarrow>
          let get = bare_get ps in
          ok_bind (assertKnownKeys ps backend_keys ''backend'') (\<lambda>_.
          ok_bind (case get ''topic'' of
                     JStr t \<Rightarrow> if t = [] then Inl Topic_required else Inr t
                   | _ \<Rightarrow> Inl Topic_required) (\<lambda>tp.
          ok_bind (parse_server (get ''server'')) (\<lambda>sv.
          ok_bind (optional_string (get ''token'') ''backend.token'') (\<lambda>tk.
          ok_bind (parse_priority (get ''priority'')) (\<lambda>pr.
          ok_bind (optional_string (get ''iconUrl'') ''backend.iconUrl'') (\<lambda>ic.
          ok_bind (if get ''fetchTimeout'' = JUndef then Inr DEFAULT_FETCH_TIMEOUT_MS
                   else parseRequiredDurationMs (get ''fetchTimeout'') ''backend.fetchTimeout'') (\<lambda>ft.
          ok_bind (parseOptionalContentTemplateMap (get ''title'') ''title'') (\<lambda>ti.
          ok_bind (parseOptionalContentTemplateMap (get ''message'') ''message'') (\<lambda>me.
            Inr \<lparr>topic = tp, server = strip_slash sv, token = tk, priority = pr, iconUrl = ic,
              fetchTimeoutMs = ft, title_map = ti, message_map = me\<rparr>)))))))))
      | _ \<Rightarrow> Inl (Must_be_object ''backend config''))"

text \<open>The events section: every key must be an event, then the events are parsed in their
  fixed order.\<close>

fun parse_event_list ::
  "notification_event list \<Rightarrow> (string \<times> jsval) list \<Rightarrow> (notification_event \<Rightarrow> event_config)
   \<Rightarrow> config_error + (notification_event \<Rightarrow> event_config)" where
  "parse_event_list [] ps acc = Inr acc"
| "parse_event_list (e # es) ps acc =
     ok_bind (parseEventConfig e (bare_get ps (event_name e)) (defaultEvents e)) (\<lambda>c.
       parse_event_list es ps (acc(e := c)))"

definition parse_events :: "jsval \<Rightarrow> config_error + (notification_event \<Rightarrow> event_config)" where
  "parse_events v =
     (case v of
        JUndef \<Rightarrow> Inr defaultEvents
      | JObj ps \<Rightarrow>
          (case find (\<lambda>k. \<not> isValidEvent k) (map fst ps) of
             Some k \<Rightarrow> Inl (Invalid_event k ''events'')
           | None \<Rightarrow> parse_event_list NOTIFICATION_EVENTS ps defaultEvents)
      | _ \<Rightarrow> Inl (Must_be_object ''events''))"

definition disabled_backend :: backend_config where
  "disabled_backend = \<lparr>topic = [], server = [], token = None, priority = ''default'',
     iconUrl = None, fetchTimeoutMs = DEFAULT_FETCH_TIMEOUT_MS, title_map = None,
     message_map = None\<rparr>"

text \<open>The checks of \<open>parsePluginConfig\<close> after parsing and substitution.\<close>

definition parse_substituted :: "(string \<times> jsval) list \<Rightarrow> config_error + plugin_config" where
  "parse_substituted ps =
     ok_bind (assertKnownKeys ps [''enabled'', ''events'', ''backend''] ''config'') (\<lambda>_.
     ok_bind (case bare_get ps ''enabled'' of
                JUndef \<Rightarrow> Inr True | JBool b \<Rightarrow> Inr b | _ \<Rightarrow> Inl (Not_boolean ''enabled'')) (\<lambda>en.
     ok_bind (parse_events (bare_get ps ''events'')) (\<lambda>ev.
       if \<not> en then
         ok_bind (if bare_get ps ''backend'' = JUndef then Inr disabled_backend
                  else parseBackendConfig (bare_get ps ''backend'')) (\<lambda>_.
           Inr \<lparr>enabled = en, events = ev, backend = disabled_backend\<rparr>)
       else
         ok_bind (parseBackendConfig (bare_get ps ''backend'')) (\<lambda>b.
           Inr \<lparr>enabled = en, events = ev, backend = b\<rparr>))))"

definition parse_document :: "config_host \<Rightarrow> jsval \<Rightarrow> string \<Rightarrow> config_error + plugin_config" where
  "parse_document h parsed configDir =
     (case parsed of
        JObj ps \<Rightarrow> ok_bind (substituteProps h configDir ps) parse_substituted
      | _ \<Rightarrow> Inl Config_not_object)"

definition parsePluginConfig ::
  "config_host \<Rightarrow> string \<Rightarrow> string \<Rightarrow> config_error + plugin_config" where
  "parsePluginConfig h file_text configDir =
     (case json_parse file_text of
        None \<Rightarrow> Inl (Invalid_json (syntax_message h file_text))
      | Some parsed \<Rightarrow> parse_document h parsed configDir)"

section \<open>Loading\<close>

definition configPath :: "config_host \<Rightarrow> string" where
  "configPath h =
     (let base = (case env_var h ''XDG_CONFIG_HOME'' of
          Some x \<Rightarrow> if x \<noteq> [] then x else path_join [home h, ''.config'']
        | None \<Rightarrow> path_join [home h, ''.config''])
      in path_join [base, ''opencode'', ''notification-ntfy.json''])"

text \<open>The read of the configuration file itself.\<close>

datatype file_result = Enoent | Unreadable string | Content string

definition loadConfig :: "config_host \<Rightarrow> (string \<Rightarrow> file_result) \<Rightarrow> config_error + plugin_config" where
  "loadConfig h fs =
     (let p = configPath h
      in case fs p of
           Enoent \<Rightarrow> Inl (Config_not_found p)
         | Unreadable m \<Rightarrow> Inl (Config_unreadable m)
         | Content file_text \<Rightarrow> parsePluginConfig h file_text (path_dirname p))"

end
