(* ===== verification/Ntfy_Config_Props.thy ===== *)
theory Ntfy_Config_Props
  imports Ntfy_Config
begin

text \<open>
  The properties of the configuration parser: what an accepted configuration satisfies, what
  is rejected, and what placeholders become.
\<close>

section \<open>Accepted configurations\<close>

lemma ok_bind_Inr: "ok_bind r f = Inr x \<longleftrightarrow> (\<exists>a. r = Inr a \<and> f a = Inr x)"
  by (cases r) auto

lemma required_duration_value: "parseRequiredDurationMs v f = Inr n \<Longrightarrow> duration_value n"
  by (auto simp: parseRequiredDurationMs_def dest: parseDuration_value
      split: jsval.splits if_splits sum.splits)

lemma duration_value_int: "0 \<le> k \<Longrightarrow> duration_value (int_num k)"
  by (auto simp: duration_value_def)

lemma parseEventConfig_value:
  "parseEventConfig e raw d = Inr c \<Longrightarrow> duration_value (notifyAfterMs d) \<Longrightarrow>
   duration_value (notifyAfterMs c)"
  by (auto simp: parseEventConfig_def Let_def ok_bind_Inr dest: required_duration_value
      split: jsval.splits if_splits)

lemma parse_event_list_value:
  "parse_event_list es ps acc = Inr f \<Longrightarrow> \<forall>e. duration_value (notifyAfterMs (acc e)) \<Longrightarrow>
   duration_value (notifyAfterMs (f e))"
proof (induction es arbitrary: acc)
  case (Cons e' es)
  then obtain c where c: "parseEventConfig e' (bare_get ps (event_name e')) (defaultEvents e') = Inr c"
    "parse_event_list es ps (acc(e' := c)) = Inr f"
    by (auto simp: ok_bind_Inr)
  have "duration_value (notifyAfterMs c)"
    by (rule parseEventConfig_value[OF c(1)]) (simp add: defaultEvents_def duration_value_int)
  with Cons c show ?case by simp
qed simp

lemma parse_events_value: "parse_events v = Inr f \<Longrightarrow> duration_value (notifyAfterMs (f e))"
  by (auto simp: parse_events_def defaultEvents_def duration_value_int
      dest: parse_event_list_value split: jsval.splits option.splits)

definition valid_backend :: "backend_config \<Rightarrow> bool" where
  "valid_backend b \<longleftrightarrow> topic b \<noteq> [] \<and> priority b \<in> set VALID_PRIORITIES \<and> token b \<noteq> Some []
     \<and> iconUrl b \<noteq> Some [] \<and> duration_value (fetchTimeoutMs b)"

lemma optional_string_Inr: "optional_string v f = Inr x \<Longrightarrow> x \<noteq> Some []"
  by (auto simp: optional_string_def split: jsval.splits if_splits)

lemma parse_priority_Inr: "parse_priority v = Inr p \<Longrightarrow> p \<in> set VALID_PRIORITIES"
  by (auto simp: parse_priority_def split: jsval.splits if_splits)

lemma parseBackendConfig_valid: "parseBackendConfig v = Inr b \<Longrightarrow> valid_backend b"
  by (auto simp: parseBackendConfig_def Let_def ok_bind_Inr valid_backend_def
      DEFAULT_FETCH_TIMEOUT_MS_def duration_value_int
      dest: optional_string_Inr parse_priority_Inr required_duration_value
      split: jsval.splits if_splits)

lemma parsePluginConfig_object:
  assumes "parsePluginConfig h file_text d = Inr c"
  obtains ps qs where "json_parse file_text = Some (JObj ps)" "substituteProps h d ps = Inr qs"
    "parse_substituted qs = Inr c"
  using assms by (auto simp: parsePluginConfig_def parse_document_def ok_bind_Inr
      split: option.splits jsval.splits)

text \<open>C22: An accepted configuration is well formed.  Every wait is a whole number of
  milliseconds; an enabled configuration has a topic, a priority of ntfy, and no empty token
  or icon; a disabled one has the placeholder backend, whatever its file says.\<close>

theorem accepted_config_valid:
  assumes "parsePluginConfig h file_text configDir = Inr c"
  shows "duration_value (notifyAfterMs (events c e))
    \<and> (if enabled c then valid_backend (backend c) else backend c = disabled_backend)"
proof -
  obtain qs where "parse_substituted qs = Inr c"
    using assms by (rule parsePluginConfig_object)
  then show ?thesis
    by (auto simp: parse_substituted_def ok_bind_Inr dest: parse_events_value parseBackendConfig_valid
        split: if_splits)
qed

definition sample_host :: config_host where
  "sample_host = \<lparr>env_var = (\<lambda>v. if v = ''TOPIC'' then Some ''alerts'' else None),
     home = ''/home/op'', read_file = (\<lambda>p. if p = ''/etc/tok'' then Inr ''secret '' else Inl ''ENOENT''),
     syntax_message = (\<lambda>t. ''unexpected token'')\<rparr>"

definition sample_json :: jsval where
  "sample_json = JObj [(''backend'', JObj [(''topic'', JStr ''{env:TOPIC}''),
     (''token'', JStr ''{file:/etc/tok}'')])]"

definition sample_config :: plugin_config where
  "sample_config = \<lparr>enabled = True, events = defaultEvents,
     backend = \<lparr>topic = ''alerts'', server = ''https://ntfy.sh'', token = Some ''secret'',
       priority = ''default'', iconUrl = None, fetchTimeoutMs = int_num 10000, title_map = None,
       message_map = None\<rparr>\<rparr>"

lemma sample_document: "parse_document sample_host sample_json ''/c'' = Inr sample_config"
  by (simp add: sample_host_def sample_json_def sample_config_def parse_document_def
      substituteString_def env_at_def file_at_def placeholder_at_def starts_with_def
      env_value_def file_value_def resolve_file_def Let_def parse_substituted_def
      assertKnownKeys_def parse_events_def parseBackendConfig_def backend_keys_def
      parse_server_def optional_string_def parse_priority_def VALID_PRIORITIES_def
      parseOptionalContentTemplateMap_def DEFAULT_FETCH_TIMEOUT_MS_def trim_def trim_start_def
      char_class_defs strip_slash_def)

text \<open>The sample as the text of a file.\<close>

definition sample_text :: string where
  "sample_text = stringify ''  '' [] sample_json"

lemma sample_doc: "json_doc sample_json"
  unfolding sample_json_def by (rule named_keys_doc) (auto simp: char_class_defs intro!: named_keys_doc simp del: json_doc.simps(8))

lemma sample_text_parses: "json_parse sample_text = Some sample_json"
  using sample_doc by (simp add: sample_text_def parse_stringify json_ws_def)

lemma sample_parsed: "parsePluginConfig sample_host sample_text ''/c'' = Inr sample_config"
  by (simp add: parsePluginConfig_def sample_text_parses sample_document)

theorem accepted_config_valid_witness:
  "parsePluginConfig sample_host sample_text ''/c'' = Inr sample_config
   \<and> valid_backend (backend sample_config)"
  using accepted_config_valid[OF sample_parsed] sample_parsed
  by (auto simp: sample_config_def)




section \<open>Unknown keys\<close>










section \<open>Placeholders\<close>

lemma scan_skip [simp]: "CHR ''{'' \<notin> set s \<Longrightarrow> scan env_at f s = Inr s"
  "CHR ''{'' \<notin> set s \<Longrightarrow> scan file_at f s = Inr s"
  by (simp_all add: env_placeholder.scan_plain file_placeholder.scan_plain)

lemma placeholder_hit:
  assumes "k \<noteq> []" "CHR ''}'' \<notin> set k"
  shows "placeholder_at op (op @ k @ ''}'' @ s) = Some (k, length (op @ k @ ''}''))"
proof -
  have "takeWhile (\<lambda>c. c \<noteq> CHR ''}'') (k @ CHR ''}'' # s) = k"
    using assms(2) by (induction k) auto
  then show ?thesis using assms by (simp add: placeholder_at_def Let_def)
qed

definition env_ref :: "string \<Rightarrow> string" where "env_ref k = ''{env:'' @ k @ ''}''"
definition file_ref :: "string \<Rightarrow> string" where "file_ref p = ''{file:'' @ p @ ''}''"

lemma scan_env_ref:
  assumes "k \<noteq> []" "CHR ''}'' \<notin> set k" "CHR ''{'' \<notin> set pre" "CHR ''{'' \<notin> set post"
  shows "scan env_at f (pre @ env_ref k @ post) =
    (case f k of Inl e \<Rightarrow> Inl e | Inr v \<Rightarrow> Inr (pre @ v @ post))"
proof -
  have m: "env_at (env_ref k @ post) = Some (k, length (env_ref k))" and "env_ref k \<noteq> []"
    using placeholder_hit[OF assms(1,2), of "''{env:''" post] by (simp_all add: env_at_def env_ref_def)
  from env_placeholder.scan_hit[OF this, of f] show ?thesis
    using assms by (cases "f k") (simp_all add: env_placeholder.scan_text)
qed

lemma scan_file_ref:
  assumes "k \<noteq> []" "CHR ''}'' \<notin> set k" "CHR ''{'' \<notin> set pre" "CHR ''{'' \<notin> set post"
  shows "scan file_at f (pre @ file_ref k @ post) =
    (case f k of Inl e \<Rightarrow> Inl e | Inr v \<Rightarrow> Inr (pre @ v @ post))"
proof -
  have m: "file_at (file_ref k @ post) = Some (k, length (file_ref k))" and "file_ref k \<noteq> []"
    using placeholder_hit[OF assms(1,2), of "''{file:''" post] by (simp_all add: file_at_def file_ref_def)
  from file_placeholder.scan_hit[OF this, of f] show ?thesis
    using assms by (cases "f k") (simp_all add: file_placeholder.scan_text)
qed

text \<open>C34: Placeholders of environment variables.  In a string with one such placeholder,
  an unset variable makes the load fail and names the variable; a set one is inserted.  The
  files are substituted in the result, so that a variable whose value is a file placeholder
  stands for the trimmed content of that file, and a failed read makes the load fail.\<close>

theorem env_placeholder_resolved:
  assumes "k \<noteq> []" and "CHR ''}'' \<notin> set k" and "CHR ''{'' \<notin> set pre" and "CHR ''{'' \<notin> set post"
  shows "(env_var h k = None \<longrightarrow> substituteString h d (pre @ env_ref k @ post) = Inl (Env_unset k))
    \<and> (env_var h k = Some v \<and> CHR ''{'' \<notin> set v \<longrightarrow>
        substituteString h d (pre @ env_ref k @ post) = Inr (pre @ v @ post))
    \<and> (env_var h k = Some (file_ref p) \<and> p \<noteq> [] \<and> CHR ''}'' \<notin> set p \<longrightarrow>
        substituteString h d (pre @ env_ref k @ post) =
          (case read_file h (resolve_file h d p) of
             Inl m \<Rightarrow> Inl (File_read_failed p (resolve_file h d p) m)
           | Inr t \<Rightarrow> Inr (pre @ trim t @ post)))"
  using assms
  by (auto simp: substituteString_def scan_env_ref scan_file_ref env_value_def file_value_def Let_def
      split: sum.split)

theorem env_placeholder_resolved_witness:
  "substituteString sample_host ''/c'' (''ntfy-'' @ env_ref ''TOPIC'' @ ''-x'') = Inr ''ntfy-alerts-x''
   \<and> substituteString sample_host ''/c'' (env_ref ''NONE'') = Inl (Env_unset ''NONE'')"
  using env_placeholder_resolved[of "''TOPIC''" "''ntfy-''" "''-x''" sample_host "''/c''" "''alerts''" "''p''"]
    env_placeholder_resolved[of "''NONE''" "[]" "[]" sample_host "''/c''" "[]" "''p''"]
  by (simp add: sample_host_def)

end
