(* ===== verification/Ntfy_Backend.thy ===== *)
theory Ntfy_Backend
  imports Ntfy_Config
begin

text \<open>
  \<open>plugins/ntfy/src/backend.ts\<close>: the text of a notification from its templates and the
  HTTP request that carries it, with the properties of the rendering.  The response of
  \<open>fetch\<close> is an argument, and so is the source text of a native function, which the
  rendering of an inherited property shows.
\<close>

section \<open>Notification context\<close>

record event_metadata =
  sessionId :: string
  projectName :: string
  m_branch :: string
  timestamp :: string
  m_error :: "string option"
  permissionType :: "string option"
  permissionPatterns :: "string list option"

record notification_context =
  c_event :: notification_event
  c_metadata :: event_metadata

definition MIDDLE_DOT :: string where
  "MIDDLE_DOT = [CHR '' '', CHR 0xB7, CHR '' '']"

fun DEFAULT_TITLES :: "notification_event \<Rightarrow> string" where
  "DEFAULT_TITLES Session_idle = ''Agent Idle''"
| "DEFAULT_TITLES Session_error = ''Agent Error''"
| "DEFAULT_TITLES Permission_asked = ''Permission Asked''"

fun DEFAULT_MESSAGES :: "notification_event \<Rightarrow> string" where
  "DEFAULT_MESSAGES Session_idle = ''{project}'' @ MIDDLE_DOT @ ''{branch}''"
| "DEFAULT_MESSAGES Session_error = ''{project}'' @ MIDDLE_DOT @ ''{branch}''"
| "DEFAULT_MESSAGES Permission_asked = ''{project}'' @ MIDDLE_DOT @ ''{permission_type}''"

fun DEFAULT_TAGS :: "notification_event \<Rightarrow> string" where
  "DEFAULT_TAGS Session_idle = ''hourglass''"
| "DEFAULT_TAGS Session_error = ''warning''"
| "DEFAULT_TAGS Permission_asked = ''lock''"

section \<open>Templates\<close>

definition or_empty :: "string option \<Rightarrow> string" where
  "or_empty s = (case s of Some t \<Rightarrow> t | None \<Rightarrow> [])"

definition buildTemplateVariables ::
  "notification_event \<Rightarrow> event_metadata \<Rightarrow> (string \<times> jsval) list" where
  "buildTemplateVariables e md =
     [(''event'', JStr (event_name e)), (''time'', JStr (timestamp md)),
      (''project'', JStr (projectName md)), (''branch'', JStr (m_branch md)),
      (''session_id'', JStr (sessionId md)), (''error'', JStr (or_empty (m_error md))),
      (''permission_type'', JStr (or_empty (permissionType md))),
      (''permission_patterns'',
       JStr (or_empty (map_option (join_with '','') (permissionPatterns md))))]"

text \<open>\<open>\{(\w+)\}\<close> anchored at the current position.\<close>

definition template_at :: matcher where
  "template_at s =
     (case s of
        [] \<Rightarrow> None
      | c # r \<Rightarrow>
          let k = takeWhile is_word r
          in if c = CHR ''{'' \<and> k \<noteq> [] \<and> take 1 (drop (length k) r) = ''}''
             then Some (k, length k + 2) else None)"

interpretation template_placeholder: placeholder template_at "CHR ''{''"
  by unfold_locales (auto simp: template_at_def Let_def split: list.splits if_splits)

text \<open>The string a replacement callback's value is converted to; a value that is neither a
  string nor a function is \<open>Object.prototype\<close> here.\<close>

fun text_of :: "(string \<Rightarrow> string) \<Rightarrow> jsval \<Rightarrow> string" where
  "text_of native (JStr s) = s"
| "text_of native (JNative k) = native k"
| "text_of native _ = ''[object Object]''"

definition template_value ::
  "(string \<Rightarrow> string) \<Rightarrow> (string \<times> jsval) list \<Rightarrow> string \<Rightarrow> unit + string" where
  "template_value native vars k = Inr (text_of native (nullish (obj_get vars k) (JStr [])))"

definition renderTemplate ::
  "(string \<Rightarrow> string) \<Rightarrow> string \<Rightarrow> notification_context \<Rightarrow> string" where
  "renderTemplate native template ctx =
     (let vars = buildTemplateVariables (c_event ctx) (c_metadata ctx)
      in case scan template_at (template_value native vars) template of
           Inl _ \<Rightarrow> [] | Inr t \<Rightarrow> t)"

definition resolveContent ::
  "(string \<Rightarrow> string) \<Rightarrow> template_map option \<Rightarrow> notification_event \<Rightarrow> (notification_event \<Rightarrow> string)
   \<Rightarrow> notification_context \<Rightarrow> string" where
  "resolveContent native templates e defaults ctx =
     (let template = (case templates of
          Some m \<Rightarrow> (case m e of Some t \<Rightarrow> t | None \<Rightarrow> defaults e)
        | None \<Rightarrow> defaults e)
      in renderTemplate native template ctx)"

section \<open>The request\<close>

record request =
  r_url :: string
  r_headers :: "(string \<times> string) list"
  r_body :: string
  r_timeout :: jsnum

datatype fetch_result = Fetch_failed string | Response bool string string

definition optional_header :: "string \<Rightarrow> string \<Rightarrow> string option \<Rightarrow> (string \<times> string) list" where
  "optional_header name pre v =
     (case v of Some t \<Rightarrow> if t \<noteq> [] then [(name, pre @ t)] else [] | None \<Rightarrow> [])"

definition ntfy_request ::
  "(string \<Rightarrow> string) \<Rightarrow> backend_config \<Rightarrow> notification_context \<Rightarrow> request" where
  "ntfy_request native cfg ctx =
     \<lparr>r_url = server cfg @ ''/'' @ topic cfg,
      r_headers = [(''Title'', resolveContent native (title_map cfg) (c_event ctx) DEFAULT_TITLES ctx),
          (''Priority'', priority cfg), (''Tags'', DEFAULT_TAGS (c_event ctx))]
        @ optional_header ''X-Icon'' [] (iconUrl cfg)
        @ optional_header ''Authorization'' ''Bearer '' (token cfg),
      r_body = resolveContent native (message_map cfg) (c_event ctx) DEFAULT_MESSAGES ctx,
      r_timeout = fetchTimeoutMs cfg\<rparr>"

text \<open>The exception of a failed send, or none.\<close>

definition sendNtfy ::
  "(string \<Rightarrow> string) \<Rightarrow> backend_config \<Rightarrow> notification_context \<Rightarrow> fetch_result \<Rightarrow> request \<times> (string + unit)" where
  "sendNtfy native cfg ctx res =
     (let req = ntfy_request native cfg ctx
      in (req, case res of
            Fetch_failed m \<Rightarrow> Inl m
          | Response ok status statusText \<Rightarrow>
              if \<not> ok then Inl (''ntfy: POST '' @ r_url req @ '' -> '' @ status @ '' '' @ statusText)
              else Inr ()))"

section \<open>Rendering\<close>

text \<open>A template as the pieces it is made of.\<close>

datatype piece = Lit string | Var string

fun piece_text :: "piece \<Rightarrow> string" where
  "piece_text (Lit s) = s"
| "piece_text (Var k) = ''{'' @ k @ ''}''"

fun piece_ok :: "piece \<Rightarrow> bool" where
  "piece_ok (Lit s) = (CHR ''{'' \<notin> set s)"
| "piece_ok (Var k) = (k \<noteq> [] \<and> list_all is_word k)"

definition variable_value :: "(string \<Rightarrow> string) \<Rightarrow> (string \<times> jsval) list \<Rightarrow> string \<Rightarrow> string" where
  "variable_value native vars k =
     (case map_of vars k of
        Some v \<Rightarrow> text_of native v
      | None \<Rightarrow> if ordinary_name k then [] else text_of native (proto_prop k))"

fun piece_value :: "(string \<Rightarrow> string) \<Rightarrow> (string \<times> jsval) list \<Rightarrow> piece \<Rightarrow> string" where
  "piece_value native vars (Lit s) = s"
| "piece_value native vars (Var k) = variable_value native vars k"

lemma template_hit:
  assumes "k \<noteq> []" "list_all is_word k"
  shows "template_at ((''{'' @ k @ ''}'') @ s) = Some (k, length (''{'' @ k @ ''}''))"
proof -
  have "\<not> is_word (CHR ''}'')" by (simp add: char_class_defs)
  then have "takeWhile is_word (k @ CHR ''}'' # s) = k"
    using assms(2) by (simp add: list_all_iff takeWhile_append2)
  then show ?thesis using assms by (simp add: template_at_def)
qed

lemma template_value_var:
  assumes "\<And>k v. map_of vars k = Some v \<Longrightarrow> is_string v"
  shows "template_value native vars k = Inr (variable_value native vars k)"
proof (cases "map_of vars k")
  case None
  then show ?thesis
    by (auto simp: template_value_def variable_value_def obj_get_def proto_prop_def ordinary_name_def)
next
  case (Some v)
  with assms obtain s where "v = JStr s" by (cases v) fastforce+
  with Some show ?thesis by (simp add: template_value_def variable_value_def obj_get_def)
qed

lemma scan_pieces:
  assumes "list_all piece_ok ps" "\<And>k v. map_of vars k = Some v \<Longrightarrow> is_string v"
  shows "scan template_at (template_value native vars) (concat (map piece_text ps))
    = Inr (concat (map (piece_value native vars) ps))"
  using assms(1)
proof (induction ps)
  case (Cons p ps)
  show ?case
  proof (cases p)
    case (Lit s)
    with Cons show ?thesis by (simp add: template_placeholder.scan_text)
  next
    case (Var k)
    have hit: "template_at ((''{'' @ k @ ''}'') @ concat (map piece_text ps))
        = Some (k, length (''{'' @ k @ ''}''))"
      by (rule template_hit) (use Cons.prems Var in simp_all)
    have ne: "''{'' @ k @ ''}'' \<noteq> []" by simp
    have "scan template_at (template_value native vars) (concat (map piece_text ps))
        = Inr (concat (map (piece_value native vars) ps))"
      using Cons by simp
    moreover have "concat (map piece_text (p # ps)) = (''{'' @ k @ ''}'') @ concat (map piece_text ps)"
      using Var by simp
    ultimately show ?thesis
      by (simp only: template_placeholder.scan_hit[OF hit ne] template_value_var[OF assms(2), where k = k]
          Var list.map concat.simps piece_value.simps sum.case)
  qed
qed simp

lemma variables_strings: "map_of (buildTemplateVariables e md) k = Some v \<Longrightarrow> is_string v"
  by (auto simp: buildTemplateVariables_def split: if_splits)

lemma render_pieces:
  "list_all piece_ok ps \<Longrightarrow> renderTemplate native (concat (map piece_text ps)) ctx
    = concat (map (piece_value native (buildTemplateVariables (c_event ctx) (c_metadata ctx))) ps)"
  by (simp add: renderTemplate_def scan_pieces variables_strings)


text \<open>C31: Templates are rendered in one pass.  In a template made of literal text and
  variables, the text stays, each of the eight variables stands for its value (an absent
  error or permission for the empty string), and any other name, unless every JavaScript
  object inherits it, for the empty string; a value that itself looks like a variable is not
  rendered again.\<close>

theorem template_rendered:
  assumes "list_all piece_ok ps"
  shows "renderTemplate native (concat (map piece_text ps)) ctx
    = concat (map (piece_value native (buildTemplateVariables (c_event ctx) (c_metadata ctx))) ps)"
  by (rule render_pieces[OF assms])

definition sample_metadata :: event_metadata where
  "sample_metadata = \<lparr>sessionId = ''s'', projectName = ''{branch}'', m_branch = ''main'',
     timestamp = ''t'', m_error = None, permissionType = Some ''edit'',
     permissionPatterns = Some [''a'', ''b'']\<rparr>"

theorem template_rendered_witness:
  "renderTemplate (\<lambda>_. ''native'') ''P: {project} {error}{nope}{permission_patterns}''
     \<lparr>c_event = Permission_asked, c_metadata = sample_metadata\<rparr> = ''P: {branch} a,b''"
proof -
  have o: "ordinary_name ''nope''" by code_simp
  show ?thesis
    using template_rendered[of "[Lit ''P: '', Var ''project'', Lit '' '', Var ''error'', Var ''nope'',
        Var ''permission_patterns'']" "\<lambda>_. ''native''" "\<lparr>c_event = Permission_asked, c_metadata = sample_metadata\<rparr>"]
    by (simp add: char_class_defs variable_value_def buildTemplateVariables_def sample_metadata_def
        or_empty_def o)
qed

text \<open>An inherited name is not rendered as the empty string.  Although unknown names
  are meant to vanish, \<open>{constructor}\<close> shows the source text of a native function, in
  every notification.\<close>

theorem inherited_name_rendered:
  "renderTemplate native ''{constructor}'' ctx = native ''constructor''"
  using render_pieces[of "[Var ''constructor'']" native ctx]
  by (simp add: char_class_defs variable_value_def buildTemplateVariables_def proto_prop_def
      object_prototype_def ordinary_name_def)

section \<open>Requests\<close>

lemma default_message:
  "renderTemplate native (DEFAULT_MESSAGES e) ctx =
     projectName (c_metadata ctx) @ MIDDLE_DOT @
     (if e = Permission_asked then or_empty (permissionType (c_metadata ctx)) else m_branch (c_metadata ctx))"
proof -
  let ?v = "if e = Permission_asked then ''permission_type'' else ''branch''"
  have m: "DEFAULT_MESSAGES e = concat (map piece_text [Var ''project'', Lit MIDDLE_DOT, Var ?v])"
    by (cases e) simp_all
  have ok: "list_all piece_ok [Var ''project'', Lit MIDDLE_DOT, Var ?v]"
    by (simp add: char_class_defs MIDDLE_DOT_def)
  show ?thesis
    unfolding m render_pieces[OF ok] by (simp add: variable_value_def buildTemplateVariables_def)
qed

lemma default_title: "renderTemplate native (DEFAULT_TITLES e) ctx = DEFAULT_TITLES e"
  using render_pieces[of "[Lit (DEFAULT_TITLES e)]" native ctx] by (cases e) simp_all

text \<open>The default notification.  Without templates of the operator a notification is
  posted to the topic, its body names the project and the branch (for a permission request
  the kind of permission), and the credentials appear exactly when a token is configured.\<close>

theorem default_notification:
  assumes "title_map cfg = None" and "message_map cfg = None"
  shows "r_url (fst (sendNtfy native cfg ctx res)) = server cfg @ ''/'' @ topic cfg
    \<and> r_body (fst (sendNtfy native cfg ctx res)) =
        projectName (c_metadata ctx) @ MIDDLE_DOT @
        (if c_event ctx = Permission_asked then or_empty (permissionType (c_metadata ctx))
         else m_branch (c_metadata ctx))
    \<and> (''Title'', DEFAULT_TITLES (c_event ctx)) \<in> set (r_headers (fst (sendNtfy native cfg ctx res)))
    \<and> (\<forall>v. (''Authorization'', v) \<in> set (r_headers (fst (sendNtfy native cfg ctx res)))
          \<longleftrightarrow> (\<exists>t. token cfg = Some t \<and> t \<noteq> [] \<and> v = ''Bearer '' @ t))"
  using assms
  by (auto simp: sendNtfy_def Let_def ntfy_request_def resolveContent_def default_message default_title
      optional_header_def split: option.splits)

theorem default_notification_witness:
  "r_body (fst (sendNtfy (\<lambda>_. ''native'') (disabled_backend\<lparr>topic := ''x''\<rparr>)
      \<lparr>c_event = Permission_asked, c_metadata = sample_metadata\<rparr> (Response True ''200'' ''OK'')))
   = ''{branch}'' @ MIDDLE_DOT @ ''edit''"
  using default_notification[of "disabled_backend\<lparr>topic := ''x''\<rparr>" "\<lambda>_. ''native''"
      "\<lparr>c_event = Permission_asked, c_metadata = sample_metadata\<rparr>" "Response True ''200'' ''OK''"]
  by (simp add: disabled_backend_def sample_metadata_def or_empty_def)

end
