(* ===== verification/Ntfy_Plugin.thy ===== *)
theory Ntfy_Plugin
  imports Ntfy_Backend Pty_Lifecycle "HOL-Library.AList"
begin

text \<open>
  \<open>plugins/ntfy/src/index.ts\<close>: the plugin that turns events into notifications.  As in
  the loop plugin a handler runs up to its next \<open>await\<close> and is then a task; timers,
  replies of the client and disposal interleave with the tasks in any order.  A timer may
  fire at any moment after it was set.

  Two ghost fields record what the client has answered: the sessions some lookup reported
  without a parent, and those whose transcript some lookup found free of pending processes.
\<close>

section \<open>Client lookups\<close>

datatype pty_notify_state = Pty_pending | Pty_clear | Pty_unknown

definition ptyNotifyState :: "reply \<Rightarrow> pty_notify_state" where
  "ptyNotifyState r =
     (case r of
        Returned (JArr messages) \<Rightarrow>
          if unfinishedNotifyOnExitPtys messages \<noteq> [] then Pty_pending else Pty_clear
      | _ \<Rightarrow> Pty_unknown)"

definition normalizeBranch :: "jsval \<Rightarrow> string" where
  "normalizeBranch b =
     (case b of
        JStr s \<Rightarrow> if s = [] then ''no-git'' else if s = ''HEAD'' then ''detached'' else s
      | _ \<Rightarrow> ''no-git'')"

definition refreshed_branch :: "reply \<Rightarrow> string" where
  "refreshed_branch r =
     (case r of Returned d \<Rightarrow> normalizeBranch (opt_get d ''branch'') | Thrown _ \<Rightarrow> ''no-git'')"

section \<open>Metadata\<close>

definition extractIdle :: "string \<Rightarrow> string \<Rightarrow> string \<Rightarrow> string \<Rightarrow> event_metadata" where
  "extractIdle sid project branch now =
     \<lparr>sessionId = sid, projectName = project, m_branch = branch, timestamp = now,
      m_error = None, permissionType = None, permissionPatterns = None\<rparr>"

definition errorMessage :: "jsval \<Rightarrow> string option" where
  "errorMessage v =
     (case opt_get (opt_get v ''data'') ''message'' of JStr s \<Rightarrow> Some s | _ \<Rightarrow> None)"

definition isUserInterruption :: "jsval \<Rightarrow> bool" where
  "isUserInterruption v \<longleftrightarrow> is_record v \<and> opt_get v ''name'' = JStr ''MessageAbortedError''"

definition extractError :: "string \<Rightarrow> jsval \<Rightarrow> string \<Rightarrow> string \<Rightarrow> string \<Rightarrow> event_metadata" where
  "extractError sid err project branch now =
     (extractIdle sid project branch now)\<lparr>m_error := errorMessage err\<rparr>"

definition extractPermission ::
  "string \<Rightarrow> string \<Rightarrow> string list \<Rightarrow> string \<Rightarrow> string \<Rightarrow> string \<Rightarrow> event_metadata" where
  "extractPermission sid permission patterns project branch now =
     (extractIdle sid project branch now)
       \<lparr>permissionType := Some permission,
        permissionPatterns := (if patterns \<noteq> [] then Some patterns else None)\<rparr>"

section \<open>Event decoding\<close>

datatype decoded =
    D_permission string string "string list"
  | D_branch string
  | D_idle string
  | D_error string jsval
  | D_ignore

fun all_strings :: "jsval list \<Rightarrow> string list option" where
  "all_strings [] = Some []"
| "all_strings (JStr s # vs) = map_option ((#) s) (all_strings vs)"
| "all_strings (v # vs) = None"

definition decodeEvent :: "string \<Rightarrow> jsval \<Rightarrow> decoded option" where
  "decodeEvent type props =
     (if type = ''permission.asked'' then
        (case (opt_get props ''sessionID'', opt_get props ''permission'', opt_get props ''patterns'') of
           (JStr sid, JStr perm, JArr ps) \<Rightarrow>
             if sid = [] \<or> perm = [] then None
             else map_option (D_permission sid perm) (all_strings ps)
         | _ \<Rightarrow> None)
      else if type = ''vcs.branch.updated'' then
        (case opt_get props ''branch'' of JStr b \<Rightarrow> if b = [] then None else Some (D_branch b) | _ \<Rightarrow> None)
      else if type = ''session.status'' then
        (if \<not> is_record props then None
         else if opt_get (opt_get props ''status'') ''type'' \<noteq> JStr ''idle'' then Some D_ignore
         else (case opt_get props ''sessionID'' of
             JStr sid \<Rightarrow> if sid = [] then None else Some (D_idle sid) | _ \<Rightarrow> None))
      else if type = ''session.idle'' then Some D_ignore
      else if type = ''session.error'' then
        (case opt_get props ''sessionID'' of
           JStr sid \<Rightarrow> if sid = [] then None else Some (D_error sid (opt_get props ''error''))
         | _ \<Rightarrow> None)
      else Some D_ignore)"

text \<open>The notification a decoded event asks for: its kind and its metadata, once branch and
  time are known.\<close>

datatype wanted =
    W_permission string string "string list"
  | W_idle string
  | W_error string jsval

fun wanted_of :: "decoded \<Rightarrow> wanted option" where
  "wanted_of (D_permission sid perm ps) = Some (W_permission sid perm ps)"
| "wanted_of (D_idle sid) = Some (W_idle sid)"
| "wanted_of (D_error sid err) =
     Some (if isUserInterruption err then W_idle sid else W_error sid err)"
| "wanted_of (D_branch b) = None"
| "wanted_of D_ignore = None"

fun wanted_event :: "wanted \<Rightarrow> notification_event" where
  "wanted_event (W_permission _ _ _) = Permission_asked"
| "wanted_event (W_idle _) = Session_idle"
| "wanted_event (W_error _ _) = Session_error"

fun wanted_metadata :: "wanted \<Rightarrow> string \<Rightarrow> string \<Rightarrow> string \<Rightarrow> event_metadata" where
  "wanted_metadata (W_permission sid perm ps) = extractPermission sid perm ps"
| "wanted_metadata (W_idle sid) = extractIdle sid"
| "wanted_metadata (W_error sid err) = extractError sid err"


section \<open>The plugin's state\<close>

text \<open>Where a handler is suspended: for the refresh of the branch, with the branch known,
  for the parent of the session, with the answer known, for the messages, with their verdict
  known.\<close>

datatype npc =
    N_branch wanted
  | N_branch_known wanted string
  | N_parent notification_context
  | N_parent_known notification_context bool
  | N_messages notification_context
  | N_messages_known notification_context pty_notify_state

record ntfy_world =
  n_config :: plugin_config
  n_project :: string
  disposed :: bool
  branch_cached :: "string option"
  branch_pending :: bool
  parent_cache :: "string \<rightharpoonup> bool"
  timers :: "(string \<times> nat) list"
  callbacks :: "nat \<rightharpoonup> notification_context"
  n_tasks :: "nat \<rightharpoonup> npc"
  n_next :: nat
  sent :: "notification_context list"
  root_sessions :: "string set"
  quiet_sessions :: "string set"

section \<open>Sending and debouncing\<close>

definition sendNotification :: "notification_context \<Rightarrow> ntfy_world \<Rightarrow> ntfy_world" where
  "sendNotification ctx w = (if disposed w then w else w\<lparr>sent := sent w @ [ctx]\<rparr>)"

definition timer_key :: "notification_context \<Rightarrow> string" where
  "timer_key ctx = sessionId (c_metadata ctx) @ ''|'' @ event_name (c_event ctx)"

fun not_positive :: "jsnum \<Rightarrow> bool" where
  "not_positive (Fin q) = (q \<le> 0)"
| "not_positive NegInf = True"
| "not_positive _ = False"

text \<open>The timers are the \<open>Map\<close> of the source, key by key; the callbacks are the timeouts
  the runtime still holds.\<close>

definition timer_of :: "ntfy_world \<Rightarrow> string \<rightharpoonup> nat" where
  "timer_of w = map_of (timers w)"

definition clear_timeout :: "nat option \<Rightarrow> ntfy_world \<Rightarrow> ntfy_world" where
  "clear_timeout t w =
     (case t of None \<Rightarrow> w | Some i \<Rightarrow> w\<lparr>callbacks := (callbacks w)(i := None)\<rparr>)"

definition scheduleNotification :: "notification_context \<Rightarrow> jsnum \<Rightarrow> ntfy_world \<Rightarrow> ntfy_world" where
  "scheduleNotification ctx ms w =
     (if disposed w then w
      else
        let key = timer_key ctx; w1 = clear_timeout (timer_of w key) w
        in if not_positive ms
           then sendNotification ctx (w1\<lparr>timers := AList.delete key (timers w1)\<rparr>)
           else w1\<lparr>timers := AList.update key (n_next w1) (timers w1),
                   callbacks := (callbacks w1)(n_next w1 \<mapsto> ctx), n_next := Suc (n_next w1)\<rparr>)"

text \<open>The callback of a timer.\<close>

definition fire :: "nat \<Rightarrow> notification_context \<Rightarrow> ntfy_world \<Rightarrow> ntfy_world" where
  "fire i ctx w =
     (let w1 = w\<lparr>callbacks := (callbacks w)(i := None), timers := AList.delete (timer_key ctx) (timers w)\<rparr>
      in if disposed w1 then w1 else sendNotification ctx w1)"

definition dispose :: "ntfy_world \<Rightarrow> ntfy_world" where
  "dispose w =
     w\<lparr>disposed := True, callbacks := (callbacks w) |` (- snd ` set (timers w)), timers := []\<rparr>"

section \<open>Handlers\<close>

definition set_npc :: "nat \<Rightarrow> npc \<Rightarrow> ntfy_world \<Rightarrow> ntfy_world" where
  "set_npc tid c w = w\<lparr>n_tasks := (n_tasks w)(tid \<mapsto> c)\<rparr>"

definition end_task :: "nat \<Rightarrow> ntfy_world \<Rightarrow> ntfy_world" where
  "end_task tid w = w\<lparr>n_tasks := (n_tasks w)(tid := None)\<rparr>"

text \<open>\<open>branch.current()\<close> in a new handler.\<close>

definition current_branch :: "wanted \<Rightarrow> ntfy_world \<Rightarrow> ntfy_world" where
  "current_branch wt w =
     (let tid = n_next w; w1 = w\<lparr>n_next := Suc tid\<rparr>
      in case branch_cached w of
           Some b \<Rightarrow> set_npc tid (N_branch_known wt b) w1
         | None \<Rightarrow> set_npc tid (N_branch wt) (w1\<lparr>branch_pending := True\<rparr>))"

definition ntfy_event :: "string \<Rightarrow> jsval \<Rightarrow> ntfy_world \<Rightarrow> ntfy_world" where
  "ntfy_event type props w =
     (if disposed w then w
      else case decodeEvent type props of
             None \<Rightarrow> w
           | Some (D_branch b) \<Rightarrow> w\<lparr>branch_cached := Some (normalizeBranch (JStr b))\<rparr>
           | Some d \<Rightarrow> (case wanted_of d of None \<Rightarrow> w | Some wt \<Rightarrow> current_branch wt w))"

text \<open>The end of \<open>refresh\<close>.\<close>

definition branch_refreshed :: "reply \<Rightarrow> ntfy_world \<Rightarrow> ntfy_world" where
  "branch_refreshed r w = w\<lparr>branch_cached := Some (refreshed_branch r), branch_pending := False\<rparr>"

text \<open>From the known branch to the query of the session's parent: metadata, the checks at
  the start of \<open>dispatchNotification\<close>, and the cache of \<open>isSubagent\<close>.\<close>

definition dispatch_begin :: "nat \<Rightarrow> wanted \<Rightarrow> string \<Rightarrow> string \<Rightarrow> ntfy_world \<Rightarrow> ntfy_world" where
  "dispatch_begin tid wt branch now w =
     (let ctx = \<lparr>c_event = wanted_event wt, c_metadata = wanted_metadata wt (n_project w) branch now\<rparr>;
          sid = sessionId (c_metadata ctx)
      in if disposed w then end_task tid w
         else if \<not> enabled (n_config w) then end_task tid w
         else if \<not> ev_enabled (events (n_config w) (c_event ctx)) then end_task tid w
         else if sid = [] then end_task tid w
         else (case parent_cache w sid of
             Some b \<Rightarrow> set_npc tid (N_parent_known ctx b) w
           | None \<Rightarrow> set_npc tid (N_parent ctx) w))"

definition parent_answered :: "nat \<Rightarrow> notification_context \<Rightarrow> reply \<Rightarrow> ntfy_world \<Rightarrow> ntfy_world" where
  "parent_answered tid ctx r w =
     (let sid = sessionId (c_metadata ctx)
      in case r of
           Thrown _ \<Rightarrow> set_npc tid (N_parent_known ctx True) w
         | Returned d \<Rightarrow>
             let result = truthy (opt_get d ''parentID'')
             in set_npc tid (N_parent_known ctx result)
                  (w\<lparr>parent_cache := (parent_cache w)(sid \<mapsto> result),
                     root_sessions := (if result then root_sessions w else insert sid (root_sessions w))\<rparr>))"

definition dispatch_schedule :: "nat \<Rightarrow> notification_context \<Rightarrow> ntfy_world \<Rightarrow> ntfy_world" where
  "dispatch_schedule tid ctx w =
     (let w1 = end_task tid w
      in if disposed w1 then w1
         else scheduleNotification ctx (notifyAfterMs (events (n_config w1) (c_event ctx))) w1)"

definition dispatch_parent_known ::
  "nat \<Rightarrow> notification_context \<Rightarrow> bool \<Rightarrow> ntfy_world \<Rightarrow> ntfy_world" where
  "dispatch_parent_known tid ctx subagent w =
     (if subagent then end_task tid w
      else if disposed w then end_task tid w
      else if c_event ctx = Session_idle then set_npc tid (N_messages ctx) w
      else dispatch_schedule tid ctx w)"

definition messages_answered :: "nat \<Rightarrow> notification_context \<Rightarrow> reply \<Rightarrow> ntfy_world \<Rightarrow> ntfy_world" where
  "messages_answered tid ctx r w =
     set_npc tid (N_messages_known ctx (ptyNotifyState r))
       (w\<lparr>quiet_sessions := (if ptyNotifyState r = Pty_clear
            then insert (sessionId (c_metadata ctx)) (quiet_sessions w) else quiet_sessions w)\<rparr>)"

definition dispatch_messages_known ::
  "nat \<Rightarrow> notification_context \<Rightarrow> pty_notify_state \<Rightarrow> ntfy_world \<Rightarrow> ntfy_world" where
  "dispatch_messages_known tid ctx st w =
     (case st of
        Pty_pending \<Rightarrow> end_task tid w
      | Pty_unknown \<Rightarrow> end_task tid w
      | Pty_clear \<Rightarrow> dispatch_schedule tid ctx w)"


section \<open>Starting the plugin\<close>

definition ntfy_init :: "plugin_config \<Rightarrow> string \<Rightarrow> ntfy_world" where
  "ntfy_init c project = \<lparr>n_config = c, n_project = project, disposed = False,
     branch_cached = None, branch_pending = False, parent_cache = Map.empty, timers = [],
     callbacks = Map.empty, n_tasks = Map.empty, n_next = 0, sent = [], root_sessions = {},
     quiet_sessions = {}\<rparr>"

datatype plugin_start = Plugin_disabled | Plugin_threw config_error | Plugin_running ntfy_world

definition makeNtfyPlugin :: "config_error + plugin_config \<Rightarrow> string \<Rightarrow> plugin_start" where
  "makeNtfyPlugin loaded directory =
     (case loaded of
        Inl e \<Rightarrow>
          if str_includes (error_message e) ''config not found'' then Plugin_disabled
          else Plugin_threw e
      | Inr c \<Rightarrow> Plugin_running (ntfy_init c (path_basename directory)))"

section \<open>The transition function\<close>

datatype naction =
    N_event string jsval
  | N_branch_reply reply
  | N_resume nat string
  | N_parent_reply nat reply
  | N_messages_reply nat reply
  | N_fire nat
  | N_dispose

text \<open>A handler whose awaited answer is there, at the time \<open>now\<close>.  A handler that waits
  for the refresh of the branch goes on when no refresh is running.\<close>

definition resume :: "nat \<Rightarrow> npc \<Rightarrow> string \<Rightarrow> ntfy_world \<Rightarrow> ntfy_world option" where
  "resume tid c now w =
     (case c of
        N_branch wt \<Rightarrow>
          if branch_pending w then None
          else Some (dispatch_begin tid wt
            (case branch_cached w of Some b \<Rightarrow> b | None \<Rightarrow> ''no-git'') now w)
      | N_branch_known wt b \<Rightarrow> Some (dispatch_begin tid wt b now w)
      | N_parent_known ctx b \<Rightarrow> Some (dispatch_parent_known tid ctx b w)
      | N_messages_known ctx st \<Rightarrow> Some (dispatch_messages_known tid ctx st w)
      | _ \<Rightarrow> None)"

fun ntfy_do :: "ntfy_world \<Rightarrow> naction \<Rightarrow> ntfy_world option" where
  "ntfy_do w (N_event type props) = Some (ntfy_event type props w)"
| "ntfy_do w (N_branch_reply r) = (if branch_pending w then Some (branch_refreshed r w) else None)"
| "ntfy_do w (N_resume tid now) =
     (case n_tasks w tid of None \<Rightarrow> None | Some c \<Rightarrow> resume tid c now w)"
| "ntfy_do w (N_parent_reply tid r) =
     (case n_tasks w tid of Some (N_parent ctx) \<Rightarrow> Some (parent_answered tid ctx r w) | _ \<Rightarrow> None)"
| "ntfy_do w (N_messages_reply tid r) =
     (case n_tasks w tid of Some (N_messages ctx) \<Rightarrow> Some (messages_answered tid ctx r w) | _ \<Rightarrow> None)"
| "ntfy_do w (N_fire i) = (case callbacks w i of None \<Rightarrow> None | Some ctx \<Rightarrow> Some (fire i ctx w))"
| "ntfy_do w N_dispose = Some (dispose w)"

definition ntfy_step :: "ntfy_world \<Rightarrow> naction \<Rightarrow> ntfy_world \<Rightarrow> bool" where
  "ntfy_step w a w' \<longleftrightarrow> ntfy_do w a = Some w'"

definition ntfy_initial :: "ntfy_world \<Rightarrow> bool" where
  "ntfy_initial w \<longleftrightarrow> (\<exists>c project. w = ntfy_init c project)"

fun ntfy_play :: "ntfy_world \<Rightarrow> naction list \<Rightarrow> ntfy_world option" where
  "ntfy_play w [] = Some w"
| "ntfy_play w (a # acts) =
     (case ntfy_do w a of None \<Rightarrow> None | Some w' \<Rightarrow> ntfy_play w' acts)"

end
