(* ===== verification/Ntfy_Inv.thy ===== *)
theory Ntfy_Inv
  imports Ntfy_Plugin Machine
begin

text \<open>
  The inductive invariant of the notification plugin: timers and callbacks correspond one to
  one, and whatever is sent, scheduled or on its way has passed the gates so far.
\<close>

section \<open>The invariant\<close>

text \<open>A live callback is the one its key points to, and conversely.\<close>

definition timer_inv :: "ntfy_world \<Rightarrow> bool" where
  "timer_inv w \<longleftrightarrow>
     (\<forall>i ctx. callbacks w i = Some ctx \<longrightarrow> timer_of w (timer_key ctx) = Some i)
     \<and> (\<forall>k i. timer_of w k = Some i \<longrightarrow> (\<exists>ctx. callbacks w i = Some ctx \<and> timer_key ctx = k))
     \<and> (\<forall>i ctx. callbacks w i = Some ctx \<longrightarrow> i < n_next w)
     \<and> (disposed w \<longrightarrow> timer_of w = Map.empty)"

text \<open>A notification may be sent: the plugin and the event are enabled, the session is named,
  it was reported without a parent, and for an idle session its transcript was found quiet.\<close>

definition gated :: "ntfy_world \<Rightarrow> notification_context \<Rightarrow> bool" where
  "gated w ctx \<longleftrightarrow>
     enabled (n_config w) \<and> ev_enabled (events (n_config w) (c_event ctx))
     \<and> sessionId (c_metadata ctx) \<noteq> []"

definition allowed :: "ntfy_world \<Rightarrow> notification_context \<Rightarrow> bool" where
  "allowed w ctx \<longleftrightarrow>
     gated w ctx \<and> sessionId (c_metadata ctx) \<in> root_sessions w
     \<and> (c_event ctx = Session_idle \<longrightarrow> sessionId (c_metadata ctx) \<in> quiet_sessions w)"

fun task_ok :: "ntfy_world \<Rightarrow> npc \<Rightarrow> bool" where
  "task_ok w (N_branch _) = True"
| "task_ok w (N_branch_known _ _) = True"
| "task_ok w (N_parent ctx) = gated w ctx"
| "task_ok w (N_parent_known ctx b) =
     (gated w ctx \<and> (\<not> b \<longrightarrow> sessionId (c_metadata ctx) \<in> root_sessions w))"
| "task_ok w (N_messages ctx) = (gated w ctx \<and> sessionId (c_metadata ctx) \<in> root_sessions w)"
| "task_ok w (N_messages_known ctx st) =
     (gated w ctx \<and> sessionId (c_metadata ctx) \<in> root_sessions w
      \<and> (st = Pty_clear \<longrightarrow> sessionId (c_metadata ctx) \<in> quiet_sessions w))"

definition gate_inv :: "ntfy_world \<Rightarrow> bool" where
  "gate_inv w \<longleftrightarrow>
     (\<forall>ctx \<in> set (sent w). allowed w ctx)
     \<and> (\<forall>i ctx. callbacks w i = Some ctx \<longrightarrow> allowed w ctx)
     \<and> (\<forall>tid c. n_tasks w tid = Some c \<longrightarrow> task_ok w c)
     \<and> (\<forall>sid. parent_cache w sid = Some False \<longrightarrow> sid \<in> root_sessions w)"

definition ntfy_inv :: "ntfy_world \<Rightarrow> bool" where
  "ntfy_inv w \<longleftrightarrow> timer_inv w \<and> gate_inv w"

lemma timer_of_update [simp]:
  "timer_of (w\<lparr>timers := AList.update k i ts\<rparr>) = (map_of ts)(k \<mapsto> i)"
  "timer_of (w\<lparr>timers := AList.delete k ts\<rparr>) = (map_of ts)(k := None)"
  "timer_of (w\<lparr>timers := []\<rparr>) = Map.empty"
  "timer_of (w\<lparr>callbacks := c\<rparr>) = timer_of w" "timer_of (w\<lparr>n_next := n\<rparr>) = timer_of w"
  "timer_of (w\<lparr>disposed := d\<rparr>) = timer_of w" "timer_of (w\<lparr>sent := s\<rparr>) = timer_of w"
  "timer_of (w\<lparr>n_tasks := a\<rparr>) = timer_of w" "timer_of (w\<lparr>branch_cached := b\<rparr>) = timer_of w"
  "timer_of (w\<lparr>branch_pending := p\<rparr>) = timer_of w" "timer_of (w\<lparr>parent_cache := q\<rparr>) = timer_of w"
  "timer_of (w\<lparr>root_sessions := f\<rparr>) = timer_of w" "timer_of (w\<lparr>quiet_sessions := g\<rparr>) = timer_of w"
  by (simp_all add: timer_of_def update_conv' delete_conv')

lemma timer_of_fold [simp]: "map_of (timers w) = timer_of w"
  by (simp add: timer_of_def)

lemma ntfy_inv_init: "ntfy_initial w \<Longrightarrow> ntfy_inv w"
  by (auto simp: ntfy_initial_def ntfy_init_def ntfy_inv_def timer_inv_def gate_inv_def timer_of_def
      simp del: timer_of_fold)

text \<open>The predicates depend on few fields.\<close>

lemma timer_inv_update [simp]:
  "timer_inv (w\<lparr>n_tasks := a\<rparr>) = timer_inv w" "timer_inv (w\<lparr>branch_cached := b\<rparr>) = timer_inv w"
  "timer_inv (w\<lparr>branch_pending := c\<rparr>) = timer_inv w" "timer_inv (w\<lparr>parent_cache := d\<rparr>) = timer_inv w"
  "timer_inv (w\<lparr>sent := e\<rparr>) = timer_inv w" "timer_inv (w\<lparr>root_sessions := f\<rparr>) = timer_inv w"
  "timer_inv (w\<lparr>quiet_sessions := g\<rparr>) = timer_inv w"
  by (simp_all add: timer_inv_def)

lemma allowed_mono:
  "allowed w ctx \<Longrightarrow> n_config w' = n_config w \<Longrightarrow> root_sessions w \<subseteq> root_sessions w' \<Longrightarrow>
   quiet_sessions w \<subseteq> quiet_sessions w' \<Longrightarrow> allowed w' ctx"
  by (auto simp: allowed_def gated_def)

lemma task_ok_sent [simp]: "task_ok (w\<lparr>sent := s\<rparr>) c = task_ok w c"
  by (cases c) (simp_all add: gated_def)

lemma task_ok_mono:
  "task_ok w c \<Longrightarrow> n_config w' = n_config w \<Longrightarrow> root_sessions w \<subseteq> root_sessions w' \<Longrightarrow>
   quiet_sessions w \<subseteq> quiet_sessions w' \<Longrightarrow> task_ok w' c"
  by (cases c) (auto simp: gated_def)

text \<open>A change that adds no callback, keeps the gates open, and adds only good tasks, cache
  entries and sent notifications.\<close>

lemma gate_inv_step:
  assumes "gate_inv w" "n_config w' = n_config w" "root_sessions w \<subseteq> root_sessions w'"
    "quiet_sessions w \<subseteq> quiet_sessions w'"
    and "\<And>ctx. ctx \<in> set (sent w') \<Longrightarrow> ctx \<in> set (sent w) \<or> allowed w' ctx"
    and "\<And>i ctx. callbacks w' i = Some ctx \<Longrightarrow> callbacks w i = Some ctx \<or> allowed w' ctx"
    and "\<And>tid c. n_tasks w' tid = Some c \<Longrightarrow> n_tasks w tid = Some c \<or> task_ok w' c"
    and "\<And>sid. parent_cache w' sid = Some False \<Longrightarrow> parent_cache w sid = Some False \<or> sid \<in> root_sessions w'"
  shows "gate_inv w'"
  unfolding gate_inv_def
proof (intro conjI ballI allI impI)
  fix ctx assume "ctx \<in> set (sent w')"
  then show "allowed w' ctx" using assms(1,5) allowed_mono[OF _ assms(2-4)] by (auto simp: gate_inv_def)
next
  fix i ctx assume "callbacks w' i = Some ctx"
  then show "allowed w' ctx" using assms(1) assms(6)[of i ctx] allowed_mono[OF _ assms(2-4)]
    by (auto simp: gate_inv_def)
next
  fix tid c assume "n_tasks w' tid = Some c"
  then show "task_ok w' c" using assms(1) assms(7)[of tid c] task_ok_mono[OF _ assms(2-4)]
    by (auto simp: gate_inv_def)
next
  fix sid assume "parent_cache w' sid = Some False"
  then show "sid \<in> root_sessions w'" using assms(1,3) assms(8)[of sid] by (auto simp: gate_inv_def)
qed


section \<open>Timers\<close>

lemma clear_timeout_fields [simp]:
  "timer_of (clear_timeout t w) = timer_of w" "timers (clear_timeout t w) = timers w"
  "n_next (clear_timeout t w) = n_next w"
  "disposed (clear_timeout t w) = disposed w" "sent (clear_timeout t w) = sent w"
  "n_tasks (clear_timeout t w) = n_tasks w" "parent_cache (clear_timeout t w) = parent_cache w"
  "n_config (clear_timeout t w) = n_config w" "root_sessions (clear_timeout t w) = root_sessions w"
  "quiet_sessions (clear_timeout t w) = quiet_sessions w"
  by (simp_all add: clear_timeout_def split: option.split)

lemma clear_timeout_callbacks:
  "callbacks (clear_timeout t w) = (case t of None \<Rightarrow> callbacks w | Some i \<Rightarrow> (callbacks w)(i := None))"
  by (simp add: clear_timeout_def split: option.split)

text \<open>After the clearing of a key's timer no live callback has the key.\<close>

lemma cleared_key:
  assumes "timer_inv w" "callbacks (clear_timeout (timer_of w key) w) i = Some ctx"
  shows "timer_key ctx \<noteq> key \<and> callbacks w i = Some ctx \<and> timer_of w (timer_key ctx) = Some i"
  using assms by (auto simp: clear_timeout_callbacks timer_inv_def split: option.splits if_splits)

lemma schedule_timer_inv:
  assumes inv: "timer_inv w"
  shows "timer_inv (scheduleNotification ctx ms w)"
proof -
  let ?key = "timer_key ctx"
  let ?w1 = "clear_timeout (timer_of w ?key) w"
  have old: "\<exists>c. callbacks ?w1 i = Some c \<and> timer_key c = k"
    if "timer_of w k = Some i" "k \<noteq> ?key" for k i
    using inv that by (auto simp: timer_inv_def clear_timeout_callbacks split: option.split)
      (metis option.inject)
  have new: "i < n_next w" if "callbacks ?w1 i = Some c" for i c
    using cleared_key[OF inv that] inv by (auto simp: timer_inv_def)
  have zero: "timer_inv (?w1\<lparr>timers := AList.delete ?key (timers w)\<rparr>)"
    using inv cleared_key[OF inv] old new
    by (auto simp: timer_inv_def[of "?w1\<lparr>timers := AList.delete ?key (timers w)\<rparr>"])
       (auto simp: timer_inv_def)
  have later: "timer_inv (?w1\<lparr>timers := AList.update ?key (n_next w) (timers w),
      callbacks := (callbacks ?w1)(n_next w \<mapsto> ctx), n_next := Suc (n_next w)\<rparr>)" if "\<not> disposed w"
    using cleared_key[OF inv] old new that less_SucI
    by (auto simp: timer_inv_def[of "?w1\<lparr>timers := AList.update ?key (n_next w) (timers w),
      callbacks := (callbacks ?w1)(n_next w \<mapsto> ctx), n_next := Suc (n_next w)\<rparr>"]) fastforce+
  show ?thesis
    using inv zero later by (auto simp: scheduleNotification_def Let_def sendNotification_def)
qed

lemma schedule_fields [simp]:
  "n_config (scheduleNotification ctx ms w) = n_config w"
  "root_sessions (scheduleNotification ctx ms w) = root_sessions w"
  "quiet_sessions (scheduleNotification ctx ms w) = quiet_sessions w"
  "n_tasks (scheduleNotification ctx ms w) = n_tasks w"
  "parent_cache (scheduleNotification ctx ms w) = parent_cache w"
  "disposed (scheduleNotification ctx ms w) = disposed w"
  by (simp_all add: scheduleNotification_def Let_def sendNotification_def)

lemma schedule_sent: "c \<in> set (sent (scheduleNotification ctx ms w)) \<Longrightarrow> c \<in> set (sent w) \<or> c = ctx"
  by (auto simp: scheduleNotification_def Let_def sendNotification_def split: if_splits)

lemma schedule_callbacks:
  "callbacks (scheduleNotification ctx ms w) i = Some c \<Longrightarrow> callbacks w i = Some c \<or> c = ctx"
  by (auto simp: scheduleNotification_def Let_def sendNotification_def clear_timeout_callbacks
      split: if_splits option.splits)

lemma schedule_inv:
  assumes "ntfy_inv w" "allowed w ctx"
  shows "ntfy_inv (scheduleNotification ctx ms w)"
  unfolding ntfy_inv_def
proof
  show "timer_inv (scheduleNotification ctx ms w)"
    using assms(1) by (simp add: ntfy_inv_def schedule_timer_inv)
  have ok: "allowed (scheduleNotification ctx ms w) ctx"
    using assms(2) by (rule allowed_mono) simp_all
  have "gate_inv w" using assms(1) by (simp add: ntfy_inv_def)
  then show "gate_inv (scheduleNotification ctx ms w)"
  proof (rule gate_inv_step)
    fix c assume "c \<in> set (sent (scheduleNotification ctx ms w))"
    then show "c \<in> set (sent w) \<or> allowed (scheduleNotification ctx ms w) c"
      using schedule_sent ok by blast
  next
    fix i c assume "callbacks (scheduleNotification ctx ms w) i = Some c"
    then show "callbacks w i = Some c \<or> allowed (scheduleNotification ctx ms w) c"
      using schedule_callbacks ok by blast
  qed simp_all
qed

lemma fire_inv:
  assumes "ntfy_inv w" "callbacks w i = Some ctx"
  shows "ntfy_inv (fire i ctx w)"
proof -
  have t: "timer_of w (timer_key ctx) = Some i" "allowed w ctx" "timer_inv w" "gate_inv w"
    using assms by (auto simp: ntfy_inv_def timer_inv_def gate_inv_def)
  define w1 where
    "w1 = w\<lparr>callbacks := (callbacks w)(i := None), timers := AList.delete (timer_key ctx) (timers w)\<rparr>"
  have w1: "timer_of w1 = (timer_of w)(timer_key ctx := None)" "callbacks w1 = (callbacks w)(i := None)"
    "n_next w1 = n_next w" "disposed w1 = disposed w"
    by (simp_all add: w1_def)
  have "timer_inv w1"
    unfolding timer_inv_def w1
  proof (intro conjI allI impI)
    fix j c assume "((callbacks w)(i := None)) j = Some c"
    then have j: "callbacks w j = Some c" "j \<noteq> i" by (auto split: if_splits)
    then have "timer_of w (timer_key c) = Some j" "j < n_next w" using t(3) by (auto simp: timer_inv_def)
    with t(1) j(2) show "((timer_of w)(timer_key ctx := None)) (timer_key c) = Some j" "j < n_next w"
      by auto
  next
    fix k j assume "((timer_of w)(timer_key ctx := None)) k = Some j"
    then have k: "timer_of w k = Some j" "k \<noteq> timer_key ctx" by (auto split: if_splits)
    then obtain c where "callbacks w j = Some c" "timer_key c = k"
      using t(3) unfolding timer_inv_def by blast
    with k assms(2) show "\<exists>c. ((callbacks w)(i := None)) j = Some c \<and> timer_key c = k" by auto
  qed (use t(3) in \<open>auto simp: timer_inv_def\<close>)
  moreover have "gate_inv w1"
    using t(4) by (rule gate_inv_step) (auto simp: w1_def split: if_splits)
  moreover have "allowed w1 ctx" using t(2) by (rule allowed_mono) (simp_all add: w1_def)
  ultimately have "ntfy_inv (sendNotification ctx w1) \<and> ntfy_inv w1"
    by (auto simp: ntfy_inv_def sendNotification_def gate_inv_def allowed_def gated_def)
  then show ?thesis by (simp add: fire_def w1_def[symmetric] Let_def)
qed

lemma dispose_inv:
  assumes "ntfy_inv w"
  shows "ntfy_inv (dispose w) \<and> callbacks (dispose w) = Map.empty"
proof -
  have c: "callbacks (dispose w) = Map.empty"
  proof
    fix i show "callbacks (dispose w) i = None"
    proof (cases "callbacks w i")
      case (Some ctx)
      then have "timer_of w (timer_key ctx) = Some i"
        using assms by (simp add: ntfy_inv_def timer_inv_def)
      then have "(timer_key ctx, i) \<in> set (timers w)" unfolding timer_of_def by (rule map_of_SomeD)
      then have "i \<in> snd ` set (timers w)" by (rule image_eqI[rotated]) simp
      then show ?thesis by (simp add: dispose_def restrict_map_def)
    qed (simp add: dispose_def restrict_map_def)
  qed
  then have "timer_inv (dispose w)" by (simp add: timer_inv_def) (simp add: dispose_def)
  moreover have "gate_inv w" using assms by (simp add: ntfy_inv_def)
  then have "gate_inv (dispose w)"
    by (rule gate_inv_step) (use c in \<open>simp_all add: dispose_def\<close>)
  ultimately show ?thesis using c by (simp add: ntfy_inv_def)
qed


section \<open>Every action keeps the invariant\<close>

lemma set_npc_inv:
  assumes "ntfy_inv w" "task_ok w c"
  shows "ntfy_inv (set_npc tid c w)"
proof -
  have "gate_inv w" using assms(1) by (simp add: ntfy_inv_def)
  then have "gate_inv (set_npc tid c w)"
  proof (rule gate_inv_step)
    fix i d assume "n_tasks (set_npc tid c w) i = Some d"
    moreover have "task_ok (set_npc tid c w) c"
      using assms(2) by (rule task_ok_mono) (simp_all add: set_npc_def)
    ultimately show "n_tasks w i = Some d \<or> task_ok (set_npc tid c w) d"
      by (auto simp: set_npc_def split: if_splits)
  qed (simp_all add: set_npc_def)
  with assms(1) show ?thesis by (simp add: ntfy_inv_def set_npc_def)
qed

lemma task_okD: "ntfy_inv w \<Longrightarrow> n_tasks w tid = Some c \<Longrightarrow> task_ok w c"
  by (simp add: ntfy_inv_def gate_inv_def)

lemma end_task_inv: "ntfy_inv w \<Longrightarrow> ntfy_inv (end_task tid w)"
proof -
  assume inv: "ntfy_inv w"
  then have "gate_inv w" by (simp add: ntfy_inv_def)
  then have "gate_inv (end_task tid w)"
    by (rule gate_inv_step) (simp_all add: end_task_def split: if_splits)
  with inv show ?thesis by (simp add: ntfy_inv_def end_task_def)
qed

lemma ntfy_inv_update [simp]:
  "ntfy_inv w \<Longrightarrow> ntfy_inv (w\<lparr>branch_cached := b\<rparr>)"
  "ntfy_inv w \<Longrightarrow> ntfy_inv (w\<lparr>branch_pending := p\<rparr>)"
  "ntfy_inv w \<Longrightarrow> n_next w \<le> n \<Longrightarrow> ntfy_inv (w\<lparr>n_next := n\<rparr>)"
proof -
  assume inv: "ntfy_inv w"
  then have g: "gate_inv w" and t: "timer_inv w" by (simp_all add: ntfy_inv_def)
  show "ntfy_inv (w\<lparr>branch_cached := b\<rparr>)"
    using t gate_inv_step[OF g, of "w\<lparr>branch_cached := b\<rparr>"] by (simp add: ntfy_inv_def)
  show "ntfy_inv (w\<lparr>branch_pending := p\<rparr>)"
    using t gate_inv_step[OF g, of "w\<lparr>branch_pending := p\<rparr>"] by (simp add: ntfy_inv_def)
  assume n: "n_next w \<le> n"
  then have "timer_inv (w\<lparr>n_next := n\<rparr>)"
    using t by (auto simp: timer_inv_def dest: less_le_trans)
  then show "ntfy_inv (w\<lparr>n_next := n\<rparr>)"
    using gate_inv_step[OF g, of "w\<lparr>n_next := n\<rparr>"] by (simp add: ntfy_inv_def)
qed

lemma current_branch_inv: "ntfy_inv w \<Longrightarrow> ntfy_inv (current_branch wt w)"
proof -
  assume "ntfy_inv w"
  then have i: "ntfy_inv (w\<lparr>n_next := Suc (n_next w)\<rparr>)" by simp
  show ?thesis
  proof (cases "branch_cached w")
    case None
    have "ntfy_inv (w\<lparr>n_next := Suc (n_next w), branch_pending := True\<rparr>)"
      using ntfy_inv_update(2)[OF i] by simp
    then show ?thesis using None by (simp add: current_branch_def Let_def set_npc_inv)
  next
    case (Some b)
    with i show ?thesis by (simp add: current_branch_def Let_def set_npc_inv)
  qed
qed

lemma ntfy_event_inv: "ntfy_inv w \<Longrightarrow> ntfy_inv (ntfy_event type props w)"
  by (simp add: ntfy_event_def current_branch_inv split: option.split decoded.split)

lemma dispatch_begin_inv:
  assumes "ntfy_inv w"
  shows "ntfy_inv (dispatch_begin tid wt branch now w)"
proof -
  have "sid \<in> root_sessions w" if "parent_cache w sid = Some False" for sid
    using assms that by (simp add: ntfy_inv_def gate_inv_def)
  with assms show ?thesis
    by (auto simp: dispatch_begin_def Let_def end_task_inv gated_def intro!: set_npc_inv
        split: option.split)
qed

lemma parent_answered_inv:
  assumes inv: "ntfy_inv w" and t: "n_tasks w tid = Some (N_parent ctx)"
  shows "ntfy_inv (parent_answered tid ctx r w)"
proof -
  have gated: "gated w ctx" using task_okD[OF inv t] by simp
  show ?thesis
  proof (cases r)
    case (Thrown e)
    with inv gated show ?thesis by (simp add: parent_answered_def set_npc_inv)
  next
    case (Returned d)
    let ?sid = "sessionId (c_metadata ctx)"
    define res where "res = truthy (opt_get d ''parentID'')"
    define w1 where "w1 = w\<lparr>parent_cache := (parent_cache w)(?sid \<mapsto> res),
      root_sessions := (if res then root_sessions w else insert ?sid (root_sessions w))\<rparr>"
    have "gate_inv w" using inv by (simp add: ntfy_inv_def)
    then have "gate_inv w1"
      by (rule gate_inv_step) (auto simp: w1_def split: if_splits)
    moreover have "timer_inv w1" using inv by (simp add: ntfy_inv_def w1_def)
    ultimately have "ntfy_inv w1" by (simp add: ntfy_inv_def)
    moreover have "task_ok w1 (N_parent_known ctx res)"
      using gated by (simp add: w1_def gated_def)
    ultimately have "ntfy_inv (set_npc tid (N_parent_known ctx res) w1)" by (rule set_npc_inv)
    with Returned show ?thesis by (simp add: parent_answered_def Let_def res_def w1_def)
  qed
qed

lemma dispatch_schedule_inv:
  assumes "ntfy_inv w" "allowed w ctx"
  shows "ntfy_inv (dispatch_schedule tid ctx w)"
proof -
  have "allowed (end_task tid w) ctx"
    using assms(2) by (rule allowed_mono) (simp_all add: end_task_def)
  with assms show ?thesis by (simp add: dispatch_schedule_def Let_def end_task_inv schedule_inv)
qed


lemma resume_inv:
  assumes inv: "ntfy_inv w" and t: "n_tasks w tid = Some c" and r: "resume tid c now w = Some w'"
  shows "ntfy_inv w'"
proof -
  have ok: "task_ok w c" by (rule task_okD[OF inv t])
  show ?thesis
  proof (cases c)
    case (N_parent_known ctx b)
    with ok have "task_ok w (N_messages ctx)" "c_event ctx \<noteq> Session_idle \<Longrightarrow> allowed w ctx" if "\<not> b"
      using that by (auto simp: allowed_def)
    with r N_parent_known inv show ?thesis
      by (auto simp: resume_def dispatch_parent_known_def end_task_inv set_npc_inv
          dispatch_schedule_inv split: if_splits)
  next
    case (N_messages_known ctx st)
    with ok have "st = Pty_clear \<Longrightarrow> allowed w ctx" by (simp add: allowed_def)
    with r N_messages_known inv show ?thesis
      by (auto simp: resume_def dispatch_messages_known_def end_task_inv dispatch_schedule_inv
          split: pty_notify_state.splits)
  qed (use inv r in \<open>auto simp: resume_def dispatch_begin_inv split: if_splits\<close>)
qed

lemma messages_answered_inv:
  assumes inv: "ntfy_inv w" and t: "n_tasks w tid = Some (N_messages ctx)"
  shows "ntfy_inv (messages_answered tid ctx r w)"
proof -
  define w1 where "w1 = w\<lparr>quiet_sessions := (if ptyNotifyState r = Pty_clear
    then insert (sessionId (c_metadata ctx)) (quiet_sessions w) else quiet_sessions w)\<rparr>"
  have "gate_inv w" using inv by (simp add: ntfy_inv_def)
  then have "gate_inv w1" by (rule gate_inv_step) (auto simp: w1_def)
  then have "ntfy_inv w1" using inv by (simp add: ntfy_inv_def w1_def)
  moreover have "task_ok w1 (N_messages_known ctx (ptyNotifyState r))"
    using task_okD[OF inv t] by (simp add: w1_def gated_def)
  ultimately have "ntfy_inv (set_npc tid (N_messages_known ctx (ptyNotifyState r)) w1)"
    by (rule set_npc_inv)
  then show ?thesis by (simp add: messages_answered_def w1_def)
qed

lemma ntfy_step_inv: "ntfy_inv w \<Longrightarrow> ntfy_step w a w' \<Longrightarrow> ntfy_inv w'"
  by (cases a)
     (auto simp: ntfy_step_def ntfy_event_inv branch_refreshed_def resume_inv parent_answered_inv
       messages_answered_inv fire_inv dispose_inv dest: resume_inv
       split: if_splits option.splits npc.splits)

interpretation ntfy_machine: invariant_of ntfy_initial ntfy_step ntfy_inv
  by unfold_locales (auto intro: ntfy_inv_init ntfy_step_inv)

end
