(* ===== verification/Ntfy_Spec.thy ===== *)
theory Ntfy_Spec
  imports Ntfy_Inv
begin

text \<open>
  What the notification plugin promises, as an abstract machine without handlers, timer
  identifiers or callbacks: for every session and kind of event at most one notification
  waits, a newer one replaces it, its expiry delivers it, and disposal drops what waits.
  The plugin refines this machine.
\<close>

section \<open>Sample runs\<close>

definition sample_running :: "jsnum \<Rightarrow> ntfy_world" where
  "sample_running ms = ntfy_init \<lparr>enabled = True,
     events = (\<lambda>e. \<lparr>ev_enabled = True, notifyAfterMs = ms\<rparr>), backend = disabled_backend\<rparr> ''proj''"

definition idle_props :: "string \<Rightarrow> jsval" where
  "idle_props sid = JObj [(''sessionID'', JStr sid), (''status'', JObj [(''type'', JStr ''idle'')])]"

text \<open>An idle event of a root session whose transcript is quiet, up to the scheduling.\<close>

definition idle_run :: "string \<Rightarrow> nat \<Rightarrow> naction list" where
  "idle_run sid tid = [N_event ''session.status'' (idle_props sid),
     N_branch_reply (Returned (JObj [(''branch'', JStr ''main'')])), N_resume tid ''t'',
     N_parent_reply tid (Returned (JObj [])), N_resume tid ''t'',
     N_messages_reply tid (Returned (JArr [])), N_resume tid ''t'']"

lemma ntfy_play_reachable:
  "ntfy_play w acts = Some w' \<Longrightarrow> reachable ntfy_initial ntfy_step w \<Longrightarrow>
   reachable ntfy_initial ntfy_step w'"
proof (induction acts arbitrary: w)
  case (Cons a acts)
  then obtain w1 where "ntfy_do w a = Some w1" "ntfy_play w1 acts = Some w'"
    by (auto split: option.splits)
  with Cons show ?case by (auto simp: ntfy_step_def intro: reachable.step)
qed simp

lemma sample_reachable: "reachable ntfy_initial ntfy_step (sample_running ms)"
  by (rule reachable.start) (auto simp: ntfy_initial_def sample_running_def)

section \<open>The abstract machine\<close>

record notifier =
  waiting :: "string \<rightharpoonup> notification_context"
  delivered :: "notification_context list"
  stopped :: bool

datatype notifier_label =
    Idles
  | Schedules notification_context jsnum
  | Expires notification_context
  | Stops

inductive notifier_step :: "notifier \<Rightarrow> notifier_label \<Rightarrow> notifier \<Rightarrow> bool" where
  idles: "notifier_step a Idles a"
| sends: "not_positive ms \<Longrightarrow>
    notifier_step \<lparr>waiting = m, delivered = d, stopped = False\<rparr> (Schedules ctx ms)
      \<lparr>waiting = m(timer_key ctx := None), delivered = d @ [ctx], stopped = False\<rparr>"
| defers: "\<not> not_positive ms \<Longrightarrow>
    notifier_step \<lparr>waiting = m, delivered = d, stopped = False\<rparr> (Schedules ctx ms)
      \<lparr>waiting = m(timer_key ctx \<mapsto> ctx), delivered = d, stopped = False\<rparr>"
| expires: "m (timer_key ctx) = Some ctx \<Longrightarrow>
    notifier_step \<lparr>waiting = m, delivered = d, stopped = False\<rparr> (Expires ctx)
      \<lparr>waiting = m(timer_key ctx := None), delivered = d @ [ctx], stopped = False\<rparr>"
| stops: "notifier_step \<lparr>waiting = m, delivered = d, stopped = b\<rparr> Stops
      \<lparr>waiting = Map.empty, delivered = d, stopped = True\<rparr>"

definition notifier_start :: "notifier \<Rightarrow> bool" where
  "notifier_start a \<longleftrightarrow> a = \<lparr>waiting = Map.empty, delivered = [], stopped = False\<rparr>"

definition notifier_view :: "ntfy_world \<Rightarrow> notifier" where
  "notifier_view w = \<lparr>waiting = (\<lambda>k. Option.bind (timer_of w k) (callbacks w)),
     delivered = sent w, stopped = disposed w\<rparr>"

text \<open>Only the resumption of a handler schedules, only a timer delivers what waits, only
  disposal stops.\<close>

fun notifier_may :: "naction \<Rightarrow> notifier_label \<Rightarrow> bool" where
  "notifier_may (N_fire i) l = (\<exists>ctx. l = Expires ctx)"
| "notifier_may N_dispose l = (l = Stops)"
| "notifier_may (N_resume tid now) l = (l = Idles \<or> (\<exists>ctx ms. l = Schedules ctx ms))"
| "notifier_may a l = (l = Idles)"

section \<open>The refinement\<close>

lemma notifier_view_update [simp]:
  "notifier_view (w\<lparr>n_tasks := a\<rparr>) = notifier_view w"
  "notifier_view (w\<lparr>branch_cached := b\<rparr>) = notifier_view w"
  "notifier_view (w\<lparr>branch_pending := c\<rparr>) = notifier_view w"
  "notifier_view (w\<lparr>parent_cache := d\<rparr>) = notifier_view w"
  "notifier_view (w\<lparr>root_sessions := e\<rparr>) = notifier_view w"
  "notifier_view (w\<lparr>quiet_sessions := f\<rparr>) = notifier_view w"
  "notifier_view (w\<lparr>n_next := n\<rparr>) = notifier_view w"
  "notifier_view (set_npc tid t w) = notifier_view w"
  "notifier_view (end_task tid w) = notifier_view w"
  by (simp_all add: notifier_view_def set_npc_def end_task_def)

text \<open>The notification that waits under another key is not affected by a change of one key's
  timer.\<close>

lemma waiting_other:
  assumes "timer_inv w" "k \<noteq> key"
  shows "Option.bind (timer_of w k) (callbacks (clear_timeout (timer_of w key) w))
    = Option.bind (timer_of w k) (callbacks w)"
proof (cases "timer_of w k")
  case (Some i)
  have "timer_of w key \<noteq> Some i"
    using assms Some unfolding timer_inv_def by (metis option.inject)
  with Some show ?thesis by (auto simp: clear_timeout_callbacks split: option.split)
qed simp

lemma schedule_view:
  assumes inv: "timer_inv w" and "\<not> disposed w"
  shows "notifier_step (notifier_view w) (Schedules ctx ms) (notifier_view (scheduleNotification ctx ms w))"
proof -
  let ?key = "timer_key ctx"
  have old: "callbacks w (n_next w) = None"
    using inv by (cases "callbacks w (n_next w)") (auto simp: timer_inv_def)
  have fresh: "timer_of w k \<noteq> Some (n_next w)" for k
    using inv old unfolding timer_inv_def by (metis option.distinct(1))
  have other: "Option.bind (timer_of w k) ((callbacks (clear_timeout (timer_of w ?key) w))(n_next w \<mapsto> ctx))
      = Option.bind (timer_of w k) (callbacks w)" if "k \<noteq> ?key" for k
    using waiting_other[OF inv that] fresh[of k] by (cases "timer_of w k") simp_all
  show ?thesis
  proof (cases "not_positive ms")
    case True
    then have "notifier_view (scheduleNotification ctx ms w)
        = \<lparr>waiting = (waiting (notifier_view w))(?key := None), delivered = sent w @ [ctx], stopped = False\<rparr>"
      using assms waiting_other[OF inv]
      by (auto simp: notifier_view_def scheduleNotification_def Let_def sendNotification_def fun_eq_iff)
    with True assms(2) show ?thesis
      using notifier_step.sends[of ms "waiting (notifier_view w)" "sent w" ctx]
      by (simp add: notifier_view_def)
  next
    case False
    then have "notifier_view (scheduleNotification ctx ms w)
        = \<lparr>waiting = (waiting (notifier_view w))(?key \<mapsto> ctx), delivered = sent w, stopped = False\<rparr>"
      using assms other
      by (auto simp: notifier_view_def scheduleNotification_def Let_def fun_eq_iff)
    with False assms(2) show ?thesis
      using notifier_step.defers[of ms "waiting (notifier_view w)" "sent w" ctx]
      by (simp add: notifier_view_def)
  qed
qed

lemma fire_view:
  assumes inv: "timer_inv w" and c: "callbacks w i = Some ctx"
  shows "notifier_step (notifier_view w) (Expires ctx) (notifier_view (fire i ctx w))"
proof -
  have t: "timer_of w (timer_key ctx) = Some i" using inv c by (simp add: timer_inv_def)
  have up: "\<not> disposed w" using inv t by (auto simp: timer_inv_def)
  have "Option.bind (timer_of w k) ((callbacks w)(i := None)) = Option.bind (timer_of w k) (callbacks w)"
    if "k \<noteq> timer_key ctx" for k
    using waiting_other[OF inv that] t by (simp add: clear_timeout_callbacks)
  with t up have "notifier_view (fire i ctx w) = \<lparr>waiting = (waiting (notifier_view w))(timer_key ctx := None),
      delivered = sent w @ [ctx], stopped = False\<rparr>"
    by (simp add: notifier_view_def fire_def Let_def sendNotification_def fun_eq_iff)
  with t up c show ?thesis
    using notifier_step.expires[of "waiting (notifier_view w)" ctx "sent w"]
    by (simp add: notifier_view_def)
qed

lemma dispose_view: "notifier_step (notifier_view w) Stops (notifier_view (dispose w))"
  using notifier_step.stops[of "waiting (notifier_view w)" "sent w" "disposed w"]
  by (simp add: notifier_view_def dispose_def)

lemma dispatch_schedule_view:
  assumes "timer_inv w"
  shows "\<exists>l. (l = Idles \<or> (\<exists>ctx ms. l = Schedules ctx ms))
    \<and> notifier_step (notifier_view w) l (notifier_view (dispatch_schedule tid ctx w))"
proof (cases "disposed w")
  case True
  then show ?thesis
    by (auto simp: dispatch_schedule_def end_task_def intro!: exI[of _ Idles] notifier_step.idles)
next
  case False
  let ?w = "end_task tid w"
  have "timer_inv ?w" "\<not> disposed ?w" using assms False by (simp_all add: end_task_def)
  from schedule_view[OF this, of ctx] False show ?thesis by (auto simp: dispatch_schedule_def end_task_def[of tid w] Let_def)
qed

lemma dispatch_begin_view: "notifier_view (dispatch_begin tid wt b now w) = notifier_view w"
  by (simp add: dispatch_begin_def Let_def split: option.split)

lemma resume_view:
  assumes "timer_inv w" "resume tid c now w = Some w'"
  shows "\<exists>l. (l = Idles \<or> (\<exists>ctx ms. l = Schedules ctx ms)) \<and> notifier_step (notifier_view w) l (notifier_view w')"
proof -
  have idle: "notifier_view w' = notifier_view w \<Longrightarrow> ?thesis"
    by (auto intro!: exI[of _ Idles] notifier_step.idles)
  show ?thesis
  proof (cases c)
    case (N_parent_known ctx b)
    with assms show ?thesis
      using dispatch_schedule_view[OF assms(1), of tid ctx] idle
      by (auto simp: resume_def dispatch_parent_known_def split: if_splits)
  next
    case (N_messages_known ctx st)
    with assms show ?thesis
      using dispatch_schedule_view[OF assms(1), of tid ctx] idle
      by (auto simp: resume_def dispatch_messages_known_def split: pty_notify_state.splits)
  qed (use assms idle in \<open>auto simp: resume_def dispatch_begin_view split: if_splits\<close>)
qed

lemma idling_views:
  "notifier_view (ntfy_event type props w) = notifier_view w"
  "notifier_view (branch_refreshed r w) = notifier_view w"
  "notifier_view (parent_answered tid ctx r w) = notifier_view w"
  "notifier_view (messages_answered tid ctx r w) = notifier_view w"
  by (simp_all add: ntfy_event_def current_branch_def branch_refreshed_def parent_answered_def
      messages_answered_def Let_def split: option.split decoded.split reply.split)

lemma permitted_notifier_step:
  assumes inv: "ntfy_inv w" and step: "ntfy_step w a w'"
  shows "\<exists>l. notifier_may a l \<and> notifier_step (notifier_view w) l (notifier_view w')"
proof -
  have timers: "timer_inv w" using inv by (simp add: ntfy_inv_def)
  have idle: "notifier_may a Idles \<Longrightarrow> notifier_view w' = notifier_view w \<Longrightarrow> ?thesis"
    using notifier_step.idles by (intro exI[of _ Idles]) simp
  show ?thesis
  proof (cases a)
    case (N_resume tid now)
    with step obtain c where "resume tid c now w = Some w'"
      by (auto simp: ntfy_step_def split: option.splits)
    with resume_view[OF timers] N_resume show ?thesis by simp
  next
    case (N_fire i)
    with step obtain ctx where "callbacks w i = Some ctx" "w' = fire i ctx w"
      by (auto simp: ntfy_step_def split: option.splits)
    with fire_view[OF timers] N_fire show ?thesis by auto
  next
    case N_dispose
    with step dispose_view[of w] show ?thesis by (auto simp: ntfy_step_def)
  qed (use step idle in \<open>auto simp: ntfy_step_def idling_views split: if_splits option.splits npc.splits\<close>)
qed

interpretation notifier_refinement: refinement_map
  ntfy_initial ntfy_step ntfy_inv notifier_start notifier_step notifier_view notifier_may
proof unfold_locales
  show "notifier_start (notifier_view w)" if "ntfy_initial w" for w
    using that by (auto simp: ntfy_initial_def ntfy_init_def notifier_start_def notifier_view_def timer_of_def
        simp del: timer_of_fold)
qed (rule permitted_notifier_step)

text \<open>C9: The plugin refines the abstract notifier.  Whatever events, replies and timers
  interleave, every action is one step of a machine in which at most one notification waits
  for each session and kind of event: a new one replaces it, without a delay it is delivered
  at once, expiry delivers the one that waits, and disposal drops them all.\<close>

theorem ntfy_refines_notifier:
  assumes "run ntfy_step (ntfy_init c project) acts w"
  shows "\<exists>ls. list_all2 notifier_may acts ls
    \<and> run notifier_step \<lparr>waiting = Map.empty, delivered = [], stopped = False\<rparr> ls (notifier_view w)"
proof -
  have init: "ntfy_initial (ntfy_init c project)" by (auto simp: ntfy_initial_def)
  from notifier_refinement.run_refines[OF assms ntfy_machine.inv_init[OF init]]
    notifier_refinement.view_init[OF init]
  show ?thesis by (simp add: notifier_start_def)
qed

lemma ntfy_play_run: "ntfy_play w acts = Some w' \<Longrightarrow> run ntfy_step w acts w'"
proof (induction acts arbitrary: w)
  case (Cons a acts)
  then show ?case by (auto simp: ntfy_step_def intro: run.run_more split: option.splits)
qed (simp add: run.run_done)

theorem ntfy_refines_notifier_witness:
  "\<exists>w ls. length ls = 8
     \<and> run notifier_step \<lparr>waiting = Map.empty, delivered = [], stopped = False\<rparr> ls (notifier_view w)
     \<and> map c_event (delivered (notifier_view w)) = [Session_idle]"
proof -
  let ?acts = "idle_run ''s'' 0 @ [N_fire 1]"
  have "map_option (\<lambda>w. map c_event (sent w)) (ntfy_play (sample_running (int_num 5)) ?acts) = Some [Session_idle]"
    by code_simp
  then obtain w where w: "ntfy_play (sample_running (int_num 5)) ?acts = Some w" "map c_event (sent w) = [Session_idle]"
    by (cases "ntfy_play (sample_running (int_num 5)) ?acts") (simp_all only: option.map option.inject option.distinct)
  from ntfy_refines_notifier[OF ntfy_play_run[OF w(1)[unfolded sample_running_def]]]
  obtain ls where "list_all2 notifier_may ?acts ls"
    "run notifier_step \<lparr>waiting = Map.empty, delivered = [], stopped = False\<rparr> ls (notifier_view w)" by blast
  moreover from this(1) have "length ls = 8" by (auto dest!: list_all2_lengthD simp: idle_run_def)
  moreover have "map c_event (delivered (notifier_view w)) = [Session_idle]"
    using w(2) by (simp add: notifier_view_def)
  ultimately show ?thesis by (intro exI[of _ w] exI[of _ ls] conjI)
qed

end
