(* ===== verification/Ntfy_Props.thy ===== *)
theory Ntfy_Props
  imports Ntfy_Spec
begin

text \<open>
  The invariants of the notification plugin and the properties of its debouncing, gating and
  disposal, over every interleaving of events, replies and timers.
\<close>

section \<open>Gates\<close>



section \<open>Disposal\<close>

lemma disposed_idle: "ntfy_inv w \<Longrightarrow> disposed w \<Longrightarrow> callbacks w = Map.empty"
proof
  fix i assume "ntfy_inv w" "disposed w"
  then show "callbacks w i = None"
    by (cases "callbacks w i") (auto simp: ntfy_inv_def timer_inv_def)
qed

lemma disposed_step:
  assumes "ntfy_inv w" "disposed w" "ntfy_step w a w'"
  shows "sent w' = sent w \<and> disposed w'"
proof -
  have "dispatch_schedule tid ctx w = end_task tid w" for tid ctx
    using assms(2) by (simp add: dispatch_schedule_def end_task_def)
  moreover have "sent (end_task tid w) = sent w \<and> disposed (end_task tid w)" for tid
    using assms(2) by (simp add: end_task_def)
  ultimately show ?thesis
    using assms disposed_idle[OF assms(1,2)]
    by (cases a)
       (auto simp: ntfy_step_def ntfy_event_def branch_refreshed_def resume_def dispatch_begin_def
         dispatch_parent_known_def dispatch_messages_known_def parent_answered_def
         messages_answered_def set_npc_def dispose_def Let_def
         split: if_splits option.splits npc.splits reply.splits pty_notify_state.splits)
qed

interpretation disposed_stable: stable_in ntfy_initial ntfy_step ntfy_inv
  "\<lambda>w. disposed w \<and> sent w = out" for out
  by unfold_locales (use disposed_step in blast)

text \<open>C14: Nothing is sent after disposal.  Once the plugin is disposed of, no continuation of
  a handler, no reply and no timer sends a notification or leaves a timer behind.\<close>

theorem silent_after_dispose:
  assumes "reachable ntfy_initial ntfy_step w" and "disposed w" and "run ntfy_step w acts w'"
  shows "sent w' = sent w \<and> disposed w' \<and> callbacks w' = Map.empty"
proof -
  have "ntfy_inv w" by (rule ntfy_machine.inv_reachable[OF assms(1)])
  then show ?thesis
    using disposed_stable.stable_run[OF assms(3), of "sent w"] assms(2) disposed_idle by blast
qed

theorem silent_after_dispose_witness:
  "\<exists>w w'. reachable ntfy_initial ntfy_step w \<and> disposed w \<and> n_tasks w \<noteq> Map.empty
     \<and> run ntfy_step w [N_resume 0 ''t''] w' \<and> sent w' = []"
proof -
  let ?acts = "[N_event ''session.status'' (idle_props ''s''), N_branch_reply (Returned JUndef), N_dispose]"
  have "(case ntfy_play (sample_running (int_num 0)) ?acts of None \<Rightarrow> None
      | Some w \<Rightarrow> map_option (\<lambda>w'. (disposed w, n_tasks w 0 = None, sent w)) (ntfy_do w (N_resume 0 ''t'')))
    = Some (True, False, [])"
    by code_simp
  then obtain w w' where w: "ntfy_play (sample_running (int_num 0)) ?acts = Some w" "disposed w"
    "n_tasks w 0 \<noteq> None" "sent w = []" "ntfy_step w (N_resume 0 ''t'') w'"
    unfolding ntfy_step_def by (auto simp del: ntfy_do.simps ntfy_play.simps split: option.splits)
  then have r: "run ntfy_step w [N_resume 0 ''t''] w'" by (auto intro: run.intros)
  have "reachable ntfy_initial ntfy_step w" by (rule ntfy_play_reachable[OF w(1) sample_reachable])
  with silent_after_dispose[OF this w(2) r] w r show ?thesis by auto
qed


section \<open>Debouncing\<close>

text \<open>The latest event wins.  Scheduling a notification with a positive wait sends
  nothing and leaves exactly one pending timer for its session and event, the new one, with
  the timers of every other session or event untouched; with no wait it is sent at once and no
  timer of its session and event remains.\<close>

theorem schedule_replaces:
  assumes "reachable ntfy_initial ntfy_step w" and "\<not> disposed w"
  shows "sent (scheduleNotification ctx ms w) = (if not_positive ms then sent w @ [ctx] else sent w)
    \<and> (\<forall>d. timer_key d = timer_key ctx \<longrightarrow>
          ((\<exists>i. callbacks (scheduleNotification ctx ms w) i = Some d) \<longleftrightarrow> \<not> not_positive ms \<and> d = ctx))
    \<and> (\<forall>i d. timer_key d \<noteq> timer_key ctx \<longrightarrow>
          callbacks (scheduleNotification ctx ms w) i = Some d \<longleftrightarrow> callbacks w i = Some d)"
proof -
  have inv: "timer_inv w" using ntfy_machine.inv_reachable[OF assms(1)] by (simp add: ntfy_inv_def)
  let ?c1 = "callbacks (clear_timeout (timer_of w (timer_key ctx)) w)"
  have c: "callbacks (scheduleNotification ctx ms w) =
      (if not_positive ms then ?c1 else ?c1(n_next w \<mapsto> ctx))"
    using assms(2) by (simp add: scheduleNotification_def Let_def sendNotification_def)
  have fresh: "callbacks w (n_next w) = None"
    using inv by (cases "callbacks w (n_next w)") (auto simp: timer_inv_def)
  have same: "?c1 i \<noteq> Some d" if "timer_key d = timer_key ctx" for i d
    using cleared_key[OF inv] that by metis
  have other: "?c1 i = Some d \<longleftrightarrow> callbacks w i = Some d" if "timer_key d \<noteq> timer_key ctx" for i d
  proof (cases "timer_of w (timer_key ctx)")
    case (Some j)
    then obtain e where "callbacks w j = Some e" "timer_key e = timer_key ctx"
      using inv unfolding timer_inv_def by blast
    with that Some show ?thesis by (auto simp: clear_timeout_callbacks)
  qed (simp add: clear_timeout_callbacks)
  show ?thesis
  proof (intro conjI allI impI)
    show "sent (scheduleNotification ctx ms w) = (if not_positive ms then sent w @ [ctx] else sent w)"
      using assms(2) by (simp add: scheduleNotification_def Let_def sendNotification_def)
    show "(\<exists>i. callbacks (scheduleNotification ctx ms w) i = Some d) \<longleftrightarrow> \<not> not_positive ms \<and> d = ctx"
      if "timer_key d = timer_key ctx" for d
      using same[OF that] by (auto simp: c split: if_splits)
    show "callbacks (scheduleNotification ctx ms w) i = Some d \<longleftrightarrow> callbacks w i = Some d"
      if "timer_key d \<noteq> timer_key ctx" for i d
      using other[OF that, of i] that fresh by (auto simp: c)
  qed
qed

definition sample_context :: "string \<Rightarrow> notification_context" where
  "sample_context sid = \<lparr>c_event = Session_idle, c_metadata = extractIdle sid ''proj'' ''main'' ''t''\<rparr>"

theorem schedule_replaces_witness:
  "sent (scheduleNotification (sample_context ''s'') (int_num 3000) (sample_running (int_num 3000))) = []
   \<and> (\<exists>i. callbacks (scheduleNotification (sample_context ''s'') (int_num 3000)
         (sample_running (int_num 3000))) i = Some (sample_context ''s''))"
proof -
  have "\<not> disposed (sample_running (int_num 3000))" "sent (sample_running (int_num 3000)) = []"
    "\<not> not_positive (int_num 3000)"
    by (simp_all add: sample_running_def ntfy_init_def int_num_def)
  with schedule_replaces[OF sample_reachable this(1), of "sample_context ''s''" "int_num 3000"]
  show ?thesis by simp
qed

section \<open>Interruptions\<close>

definition interruption_props :: "string \<Rightarrow> jsval" where
  "interruption_props sid = JObj [(''sessionID'', JStr sid),
     (''error'', JObj [(''name'', JStr ''MessageAbortedError'')])]"

text \<open>An interruption is an idle session.  The error event of a message aborted by the
  user starts exactly the handler that an idle event of the same session starts; so it is
  announced as idle, under the gates, the wait and the timer of the idle event.\<close>

theorem interruption_is_idle:
  "ntfy_event ''session.error'' (interruption_props sid) w
    = ntfy_event ''session.status'' (idle_props sid) w"
  by (simp add: ntfy_event_def decodeEvent_def interruption_props_def idle_props_def isUserInterruption_def)

section \<open>Stale branches and swallowed errors\<close>

text \<open>A late lookup overwrites a newer branch.  The answer to the first branch lookup is
  stored even when a branch update arrived meanwhile, and stays until the next update: every
  later notification shows the old branch.\<close>

theorem stale_branch:
  "map_option (\<lambda>w. (branch_cached w, branch_pending w))
     (ntfy_play (sample_running (int_num 0))
       [N_event ''session.status'' (idle_props ''s''),
        N_event ''vcs.branch.updated'' (JObj [(''branch'', JStr ''new'')]),
        N_branch_reply (Returned (JObj [(''branch'', JStr ''old'')]))])
   = Some (Some ''old'', False)"
  by code_simp




end
