(* ===== verification/Ntfy_Count.thy ===== *)
theory Ntfy_Count
  imports Ntfy_Spec Map_Count
begin

text \<open>
  Accounts of the notification plugin.  A ledger assigns a worth to every notification that
  is sent, waits or is on its way, such that what a handler does next is covered by what it
  is worth.  One ledger shows that every notification is caused by an event of its own,
  another that every event causes only a bounded number of further steps.
\<close>

section \<open>Ledgers\<close>

fun decoded_wanted :: "naction \<Rightarrow> wanted option" where
  "decoded_wanted (N_event type props) = Option.bind (decodeEvent type props) wanted_of"
| "decoded_wanted _ = None"

text \<open>A step that something else has caused: a reply, a timer, a handler that goes on.\<close>

fun reaction :: "naction \<Rightarrow> bool" where
  "reaction (N_event _ _) = False"
| "reaction N_dispose = False"
| "reaction _ = True"

definition finite_world :: "ntfy_world \<Rightarrow> bool" where
  "finite_world w \<longleftrightarrow> finite (dom (callbacks w)) \<and> finite (dom (n_tasks w))"

definition ledger_balance ::
  "(npc \<Rightarrow> nat) \<Rightarrow> (notification_context \<Rightarrow> nat) \<Rightarrow> (notification_context \<Rightarrow> nat) \<Rightarrow> nat \<Rightarrow> ntfy_world \<Rightarrow> nat" where
  "ledger_balance task_worth wait_worth sent_worth price w =
     sum_list (map sent_worth (sent w)) + total wait_worth (callbacks w) + total task_worth (n_tasks w)
     + price * of_bool (branch_pending w)"

definition ledger_credit :: "(wanted \<Rightarrow> nat) \<Rightarrow> nat \<Rightarrow> naction \<Rightarrow> nat" where
  "ledger_credit wanted_worth price a =
     (case decoded_wanted a of None \<Rightarrow> 0 | Some wt \<Rightarrow> wanted_worth wt + price)"

text \<open>What each kind of handler is worth covers its next point and the price of a step.\<close>

locale ledger =
  fixes task_worth :: "npc \<Rightarrow> nat" and wait_worth sent_worth :: "notification_context \<Rightarrow> nat"
    and wanted_worth :: "wanted \<Rightarrow> nat" and price :: nat
  assumes worth_wanted: "task_worth (N_branch wt) = wanted_worth wt" "task_worth (N_branch_known wt b) = wanted_worth wt"
    and worth_begin: "task_worth (N_parent \<lparr>c_event = wanted_event wt, c_metadata = wanted_metadata wt p b now\<rparr>)
      + price \<le> wanted_worth wt"
    and worth_parent: "task_worth (N_parent_known ctx child) + price \<le> task_worth (N_parent ctx)"
    and worth_known: "task_worth (N_messages ctx) + price \<le> task_worth (N_parent_known ctx child)"
    and worth_messages: "task_worth (N_messages_known ctx st) + price \<le> task_worth (N_messages ctx)"
    and worth_schedule: "wait_worth ctx + price \<le> task_worth (N_messages_known ctx st)"
    and worth_wait: "sent_worth ctx + price \<le> wait_worth ctx"
begin

lemma worth_begin_known:
  "task_worth (N_parent_known \<lparr>c_event = wanted_event wt, c_metadata = wanted_metadata wt p b now\<rparr> child)
    + price \<le> wanted_worth wt"
  using worth_begin[of wt p b now]
    worth_parent[of "\<lparr>c_event = wanted_event wt, c_metadata = wanted_metadata wt p b now\<rparr>" child] by simp

lemma worth_at_parent: "wait_worth ctx + price \<le> task_worth (N_parent_known ctx child)"
  using worth_schedule[of ctx Pty_clear] worth_messages[of ctx Pty_clear] worth_known[of ctx child] by simp

lemma worth_price: "price \<le> task_worth c"
proof (cases c)
  case (N_branch wt)
  then show ?thesis using worth_begin[of wt undefined undefined undefined] by (simp add: worth_wanted)
next
  case (N_branch_known wt b)
  then show ?thesis using worth_begin[of wt undefined undefined undefined] by (simp add: worth_wanted)
next
  case (N_parent ctx)
  then show ?thesis using worth_parent[of ctx True] by simp
next
  case (N_parent_known ctx child)
  then show ?thesis using worth_known[of ctx child] by simp
next
  case (N_messages ctx)
  then show ?thesis using worth_messages[of ctx Pty_clear] by simp
next
  case (N_messages_known ctx st)
  then show ?thesis using worth_schedule[of ctx st] by simp
qed

end

text \<open>The laws of finite worlds and balances, for any worths.\<close>

lemma balance_update [simp]:
  "ledger_balance f g h p (w\<lparr>branch_cached := a\<rparr>) = ledger_balance f g h p w"
  "ledger_balance f g h p (w\<lparr>parent_cache := b\<rparr>) = ledger_balance f g h p w"
  "ledger_balance f g h p (w\<lparr>root_sessions := c\<rparr>) = ledger_balance f g h p w"
  "ledger_balance f g h p (w\<lparr>quiet_sessions := d\<rparr>) = ledger_balance f g h p w"
  "ledger_balance f g h p (w\<lparr>n_next := n\<rparr>) = ledger_balance f g h p w"
  "ledger_balance f g h p (w\<lparr>timers := t\<rparr>) = ledger_balance f g h p w"
  "ledger_balance f g h p (w\<lparr>disposed := e\<rparr>) = ledger_balance f g h p w"
  by (simp_all add: ledger_balance_def)

lemma finite_world_update [simp]:
  "finite_world (w\<lparr>branch_cached := b\<rparr>) = finite_world w" "finite_world (w\<lparr>branch_pending := p\<rparr>) = finite_world w"
  "finite_world (w\<lparr>parent_cache := q\<rparr>) = finite_world w" "finite_world (w\<lparr>root_sessions := f\<rparr>) = finite_world w"
  "finite_world (w\<lparr>quiet_sessions := g\<rparr>) = finite_world w" "finite_world (w\<lparr>n_next := n\<rparr>) = finite_world w"
  "finite_world (w\<lparr>timers := t\<rparr>) = finite_world w" "finite_world (w\<lparr>disposed := d\<rparr>) = finite_world w"
  "finite_world (w\<lparr>sent := s\<rparr>) = finite_world w"
  by (simp_all add: finite_world_def)

lemma finite_task [simp]:
  "finite_world (set_npc tid c w) = finite_world w" "finite_world (end_task tid w) = finite_world w"
  by (auto simp: finite_world_def set_npc_def end_task_def)

lemma balance_new:
  "finite_world w \<Longrightarrow> ledger_balance f g h p (set_npc tid c w) \<le> ledger_balance f g h p w + f c"
  using total_insert[of "n_tasks w" f tid c] by (simp add: ledger_balance_def set_npc_def finite_world_def)

lemma balance_next:
  "finite_world w \<Longrightarrow> n_tasks w tid = Some c \<Longrightarrow>
   ledger_balance f g h p (set_npc tid c' w) + f c = ledger_balance f g h p w + f c'"
  using total_replace[of "n_tasks w" tid c f c'] by (simp add: ledger_balance_def set_npc_def finite_world_def)

lemma balance_end:
  "finite_world w \<Longrightarrow> n_tasks w tid = Some c \<Longrightarrow>
   ledger_balance f g h p (end_task tid w) + f c = ledger_balance f g h p w"
  using total_remove[of "n_tasks w" tid c f] by (simp add: ledger_balance_def end_task_def finite_world_def)

lemma balance_send: "ledger_balance f g h p (sendNotification ctx w) \<le> ledger_balance f g h p w + h ctx"
  by (simp add: sendNotification_def ledger_balance_def)

lemma finite_clear: "finite_world w \<Longrightarrow> finite_world (clear_timeout t w)"
  by (auto simp: clear_timeout_def finite_world_def split: option.split)

lemma balance_clear:
  "finite_world w \<Longrightarrow> ledger_balance f g h p (clear_timeout t w) \<le> ledger_balance f g h p w"
  using total_remove_le[of "callbacks w" g]
  by (auto simp: clear_timeout_def ledger_balance_def finite_world_def split: option.split)

lemma balance_schedule:
  assumes "finite_world w" "h ctx \<le> g ctx"
  shows "finite_world (scheduleNotification ctx ms w)
    \<and> ledger_balance f g h p (scheduleNotification ctx ms w) \<le> ledger_balance f g h p w + g ctx"
proof -
  let ?w1 = "clear_timeout (timer_of w (timer_key ctx)) w" and ?b = "ledger_balance f g h p"
  have fin: "finite_world ?w1" by (rule finite_clear[OF assms(1)])
  have less: "?b ?w1 \<le> ?b w" by (rule balance_clear[OF assms(1)])
  have "?b (?w1\<lparr>callbacks := (callbacks ?w1)(n_next ?w1 \<mapsto> ctx)\<rparr>) \<le> ?b ?w1 + g ctx"
    using fin total_insert[of "callbacks ?w1" g "n_next ?w1" ctx] by (simp add: ledger_balance_def finite_world_def)
  moreover have "?b (sendNotification ctx (?w1\<lparr>timers := t\<rparr>)) \<le> ?b ?w1 + g ctx" for t
    using balance_send[of f g h p ctx "?w1\<lparr>timers := t\<rparr>"] assms(2) by simp
  ultimately show ?thesis
    using assms fin less
    by (auto simp: scheduleNotification_def Let_def sendNotification_def ledger_balance_def finite_world_def
        intro: order_trans)
qed

section \<open>The balance of a step\<close>

context ledger
begin

lemma worth_sent: "sent_worth ctx \<le> wait_worth ctx"
  using worth_wait[of ctx] by simp

lemma worth_end:
  "finite_world w \<Longrightarrow> n_tasks w tid = Some c \<Longrightarrow> ledger_balance task_worth wait_worth sent_worth price (end_task tid w) + price \<le> ledger_balance task_worth wait_worth sent_worth price w"
  using balance_end[of w tid c task_worth wait_worth sent_worth price] worth_price[of c] by simp

text \<open>A handler that schedules its notification hands its worth over to it.\<close>

lemma worth_dispatch:
  assumes "finite_world w" "n_tasks w tid = Some c" "wait_worth ctx + price \<le> task_worth c"
  shows "finite_world (dispatch_schedule tid ctx w) \<and> ledger_balance task_worth wait_worth sent_worth price (dispatch_schedule tid ctx w) + price \<le> ledger_balance task_worth wait_worth sent_worth price w"
proof -
  let ?u = "end_task tid w"
  have fin: "finite_world ?u" using assms(1) by simp
  have "ledger_balance task_worth wait_worth sent_worth price ?u + task_worth c = ledger_balance task_worth wait_worth sent_worth price w" by (rule balance_end[OF assms(1,2)])
  with balance_schedule[where w = ?u and ctx = ctx and ms = "notifyAfterMs (events (n_config ?u) (c_event ctx))"
      and f = task_worth and g = wait_worth and h = sent_worth and p = price] worth_sent[of ctx] assms(3) fin show ?thesis by (auto simp: dispatch_schedule_def Let_def)
qed

lemma worth_next:
  "finite_world w \<Longrightarrow> n_tasks w tid = Some c \<Longrightarrow> task_worth c' + price \<le> task_worth c \<Longrightarrow>
   ledger_balance task_worth wait_worth sent_worth price (set_npc tid c' w) + price \<le> ledger_balance task_worth wait_worth sent_worth price w"
  using balance_next[of w tid c task_worth wait_worth sent_worth price c'] by simp

lemma worth_begun:
  assumes "finite_world w" "n_tasks w tid = Some c" "task_worth c = wanted_worth wt"
  shows "finite_world (dispatch_begin tid wt b now w) \<and> ledger_balance task_worth wait_worth sent_worth price (dispatch_begin tid wt b now w) + price \<le> ledger_balance task_worth wait_worth sent_worth price w"
  using assms(1) worth_end[OF assms(1,2)] worth_next[OF assms(1,2)] assms(3)
    worth_begin[of wt "n_project w" b now] worth_begin_known[of wt "n_project w" b now]
  by (simp add: dispatch_begin_def Let_def split: option.split)

lemma worth_resume:
  assumes "finite_world w" "n_tasks w tid = Some c" "resume tid c now w = Some w'"
  shows "finite_world w' \<and> ledger_balance task_worth wait_worth sent_worth price w' + price \<le> ledger_balance task_worth wait_worth sent_worth price w"
proof (cases c)
  case (N_branch wt)
  with assms worth_begun[OF assms(1,2), of wt] show ?thesis
    by (auto simp: resume_def worth_wanted split: if_splits)
next
  case (N_branch_known wt b)
  with assms worth_begun[OF assms(1,2), of wt] show ?thesis by (auto simp: resume_def worth_wanted)
next
  case (N_parent_known ctx child)
  with assms worth_dispatch[OF assms(1,2), of ctx] worth_end[OF assms(1,2)] worth_next[OF assms(1,2), of "N_messages ctx"]
    worth_at_parent[of ctx child] worth_known[of ctx child] show ?thesis
    by (auto simp: resume_def dispatch_parent_known_def)
next
  case (N_messages_known ctx st)
  with assms worth_dispatch[OF assms(1,2), of ctx] worth_end[OF assms(1,2)] worth_schedule[of ctx st] show ?thesis
    by (auto simp: resume_def dispatch_messages_known_def split: pty_notify_state.splits)
qed (use assms in \<open>simp_all add: resume_def\<close>)

lemma worth_new:
  assumes "finite_world w"
  shows "finite_world (current_branch wt w) \<and> ledger_balance task_worth wait_worth sent_worth price (current_branch wt w) \<le> ledger_balance task_worth wait_worth sent_worth price w + (wanted_worth wt + price)"
proof (cases "branch_cached w")
  case None
  let ?v = "w\<lparr>n_next := Suc (n_next w), branch_pending := True\<rparr>"
  have "ledger_balance task_worth wait_worth sent_worth price ?v \<le> ledger_balance task_worth wait_worth sent_worth price w + price" by (simp add: ledger_balance_def)
  with None assms balance_new[of ?v task_worth wait_worth sent_worth price "n_next w" "N_branch wt"] show ?thesis
    by (simp add: current_branch_def Let_def worth_wanted)
next
  case (Some b)
  with assms balance_new[of "w\<lparr>n_next := Suc (n_next w)\<rparr>" task_worth wait_worth sent_worth price "n_next w" "N_branch_known wt b"]
  show ?thesis by (simp add: current_branch_def Let_def worth_wanted)
qed

text \<open>What an action adds to the balance, and what it takes.\<close>

lemma worth_event:
  assumes "finite_world w"
  shows "finite_world (ntfy_event type props w) \<and> ledger_balance task_worth wait_worth sent_worth price (ntfy_event type props w)
    \<le> ledger_balance task_worth wait_worth sent_worth price w + ledger_credit wanted_worth price (N_event type props)"
proof (cases "decoded_wanted (N_event type props)")
  case None
  then have "ntfy_event type props w = w \<or> (\<exists>b. ntfy_event type props w = w\<lparr>branch_cached := b\<rparr>)"
    by (auto simp: ntfy_event_def bind_eq_None_conv split: option.split decoded.split)
  with assms show ?thesis by auto
next
  case (Some wt)
  then obtain d where "decodeEvent type props = Some d" "wanted_of d = Some wt" by (auto simp: bind_eq_Some_conv)
  then have "ntfy_event type props w = (if disposed w then w else current_branch wt w)"
    by (cases d) (simp_all add: ntfy_event_def)
  with worth_new[OF assms, of wt] assms Some show ?thesis by (simp add: ledger_credit_def del: decoded_wanted.simps)
qed

lemma worth_fire:
  assumes "finite_world w" "callbacks w i = Some ctx"
  shows "finite_world (fire i ctx w) \<and> ledger_balance task_worth wait_worth sent_worth price (fire i ctx w) + price \<le> ledger_balance task_worth wait_worth sent_worth price w"
proof -
  let ?u = "w\<lparr>callbacks := (callbacks w)(i := None), timers := AList.delete (timer_key ctx) (timers w)\<rparr>"
  have "ledger_balance task_worth wait_worth sent_worth price ?u + wait_worth ctx = ledger_balance task_worth wait_worth sent_worth price w"
    using total_remove[of "callbacks w" i ctx wait_worth] assms by (simp add: ledger_balance_def finite_world_def)
  moreover have "finite_world ?u" using assms by (auto simp: finite_world_def)
  ultimately show ?thesis
    using balance_send[of task_worth wait_worth sent_worth price ctx ?u] worth_wait[of ctx]
    by (auto simp: fire_def Let_def sendNotification_def)
qed

lemma worth_dispose:
  assumes "finite_world w"
  shows "finite_world (dispose w) \<and> ledger_balance task_worth wait_worth sent_worth price (dispose w) \<le> ledger_balance task_worth wait_worth sent_worth price w"
  using assms total_restrict_le[of "callbacks w" wait_worth]
  by (auto simp: dispose_def finite_world_def ledger_balance_def)

lemma worth_parent_reply:
  assumes "finite_world w" "n_tasks w tid = Some (N_parent ctx)"
  shows "finite_world (parent_answered tid ctx r w) \<and> ledger_balance task_worth wait_worth sent_worth price (parent_answered tid ctx r w) + price \<le> ledger_balance task_worth wait_worth sent_worth price w"
proof -
  have "ledger_balance task_worth wait_worth sent_worth price (set_npc tid (N_parent_known ctx child) (w\<lparr>parent_cache := q, root_sessions := f\<rparr>)) + price \<le> ledger_balance task_worth wait_worth sent_worth price w"
    for child q f
    using worth_next[of "w\<lparr>parent_cache := q, root_sessions := f\<rparr>" tid "N_parent ctx" "N_parent_known ctx child"]
      assms worth_parent[of ctx child] by simp
  with assms worth_next[OF assms worth_parent] show ?thesis
    by (simp add: parent_answered_def Let_def split: reply.split)
qed

lemma worth_messages_reply:
  assumes "finite_world w" "n_tasks w tid = Some (N_messages ctx)"
  shows "finite_world (messages_answered tid ctx r w) \<and> ledger_balance task_worth wait_worth sent_worth price (messages_answered tid ctx r w) + price \<le> ledger_balance task_worth wait_worth sent_worth price w"
proof -
  have "ledger_balance task_worth wait_worth sent_worth price (set_npc tid (N_messages_known ctx st) (w\<lparr>quiet_sessions := q\<rparr>)) + price \<le> ledger_balance task_worth wait_worth sent_worth price w" for st q
    using worth_next[of "w\<lparr>quiet_sessions := q\<rparr>" tid "N_messages ctx" "N_messages_known ctx st"]
      assms worth_messages[of ctx st] by simp
  with assms(1) show ?thesis by (simp add: messages_answered_def)
qed

lemma worth_step:
  assumes "finite_world w" "ntfy_step w a w'"
  shows "finite_world w' \<and> ledger_balance task_worth wait_worth sent_worth price w' + price * of_bool (reaction a) \<le> ledger_balance task_worth wait_worth sent_worth price w + ledger_credit wanted_worth price a"
proof (cases a)
  case (N_event type props)
  with assms worth_event[OF assms(1), of type props] show ?thesis by (simp add: ntfy_step_def)
next
  case (N_resume tid now)
  then obtain c where "n_tasks w tid = Some c" "resume tid c now w = Some w'"
    using assms(2) by (auto simp: ntfy_step_def split: option.splits)
  from worth_resume[OF assms(1) this] N_resume show ?thesis by (simp add: ledger_credit_def)
next
  case (N_parent_reply tid r)
  then obtain ctx where t: "n_tasks w tid = Some (N_parent ctx)" "w' = parent_answered tid ctx r w"
    using assms(2) by (auto simp: ntfy_step_def split: option.splits npc.splits)
  with worth_parent_reply[OF assms(1) t(1)] N_parent_reply show ?thesis by (simp add: ledger_credit_def)
next
  case (N_messages_reply tid r)
  then obtain ctx where t: "n_tasks w tid = Some (N_messages ctx)" "w' = messages_answered tid ctx r w"
    using assms(2) by (auto simp: ntfy_step_def split: option.splits npc.splits)
  with worth_messages_reply[OF assms(1) t(1)] N_messages_reply show ?thesis by (simp add: ledger_credit_def)
next
  case (N_fire i)
  then obtain ctx where t: "callbacks w i = Some ctx" "w' = fire i ctx w"
    using assms(2) by (auto simp: ntfy_step_def split: option.splits)
  with worth_fire[OF assms(1) t(1)] N_fire show ?thesis by (simp add: ledger_credit_def)
next
  case N_dispose
  with assms worth_dispose[OF assms(1)] show ?thesis by (auto simp: ntfy_step_def)
next
  case (N_branch_reply r)
  with assms show ?thesis
    by (auto simp: ntfy_step_def branch_refreshed_def ledger_balance_def split: if_splits)
qed

end

text \<open>Every ledger is an account of the plugin's runs.\<close>

sublocale ledger \<subseteq> account: credited ntfy_initial ntfy_step finite_world
  "ledger_balance task_worth wait_worth sent_worth price" "\<lambda>a. price * of_bool (reaction a)"
  "ledger_credit wanted_worth price"
proof unfold_locales
  fix w assume "ntfy_initial w"
  then show "finite_world w" "ledger_balance task_worth wait_worth sent_worth price w = 0"
    by (auto simp: ntfy_initial_def ntfy_init_def finite_world_def ledger_balance_def)
qed (use worth_step in blast)+

section \<open>Notifications are caused by events\<close>

type_synonym notification_key = "notification_event \<times> string"

definition context_key :: "notification_context \<Rightarrow> notification_key" where
  "context_key ctx = (c_event ctx, sessionId (c_metadata ctx))"

fun wanted_key :: "wanted \<Rightarrow> notification_key" where
  "wanted_key (W_permission sid perm ps) = (Permission_asked, sid)"
| "wanted_key (W_idle sid) = (Session_idle, sid)"
| "wanted_key (W_error sid err) = (Session_error, sid)"

fun task_key :: "npc \<Rightarrow> notification_key" where
  "task_key (N_branch wt) = wanted_key wt"
| "task_key (N_branch_known wt b) = wanted_key wt"
| "task_key (N_parent ctx) = context_key ctx"
| "task_key (N_parent_known ctx b) = context_key ctx"
| "task_key (N_messages ctx) = context_key ctx"
| "task_key (N_messages_known ctx st) = context_key ctx"

definition asks_for :: "notification_key \<Rightarrow> naction \<Rightarrow> bool" where
  "asks_for k a = (case decoded_wanted a of None \<Rightarrow> False | Some wt \<Rightarrow> wanted_key wt = k)"

lemma wanted_context_key:
  "context_key \<lparr>c_event = wanted_event wt, c_metadata = wanted_metadata wt p b now\<rparr> = wanted_key wt"
  by (cases wt) (simp_all add: context_key_def extractIdle_def extractPermission_def extractError_def)

text \<open>One unit for each notification of a key, wherever it is; steps are free.\<close>

interpretation key_ledger: ledger "\<lambda>c. of_bool (task_key c = k)" "\<lambda>c. of_bool (context_key c = k)"
  "\<lambda>c. of_bool (context_key c = k)" "\<lambda>wt. of_bool (wanted_key wt = k)" 0 for k
  by unfold_locales (simp_all add: wanted_context_key)

lemma key_credit: "ledger_credit (\<lambda>wt. of_bool (wanted_key wt = k)) 0 = (\<lambda>a. of_bool (asks_for k a))"
  by (simp add: fun_eq_iff ledger_credit_def asks_for_def split: option.split)

text \<open>C10: No notification without an event of its own.  In every run from the start of the
  plugin the notifications sent for a session and a kind of event are at most the events
  that asked for one: no reply, no timer and no interleaving of handlers duplicates a
  notification or makes one up.\<close>

theorem notification_per_event:
  assumes "ntfy_initial w" and "run ntfy_step w acts w'"
  shows "length (filter (\<lambda>c. (c_event c, sessionId (c_metadata c)) = k) (sent w'))
    \<le> length (filter (asks_for k) acts)"
  using key_ledger.account.balance_from_start[OF assms, of k]
  by (simp add: key_credit sum_matching ledger_balance_def context_key_def)

theorem notification_per_event_witness:
  "\<exists>w'. run ntfy_step (sample_running (int_num 0)) (idle_run ''s'' 0) w'
     \<and> map (\<lambda>c. (c_event c, sessionId (c_metadata c))) (sent w') = [(Session_idle, ''s'')]
     \<and> 1 \<le> length (filter (asks_for (Session_idle, ''s'')) (idle_run ''s'' 0))"
proof -
  have "map_option (\<lambda>w. map (\<lambda>c. (c_event c, sessionId (c_metadata c))) (sent w))
      (ntfy_play (sample_running (int_num 0)) (idle_run ''s'' 0)) = Some [(Session_idle, ''s'')]"
    by code_simp
  then obtain w' where w: "ntfy_play (sample_running (int_num 0)) (idle_run ''s'' 0) = Some w'"
    "map (\<lambda>c. (c_event c, sessionId (c_metadata c))) (sent w') = [(Session_idle, ''s'')]"
    by auto
  have start: "ntfy_initial (sample_running (int_num 0))" by (auto simp: ntfy_initial_def sample_running_def)
  have "length (filter (\<lambda>c. (c_event c, sessionId (c_metadata c)) = (Session_idle, ''s'')) (sent w')) = 1"
    using w(2) by auto
  with notification_per_event[OF start ntfy_play_run[OF w(1)], of "(Session_idle, ''s'')"] ntfy_play_run[OF w(1)] w(2)
  show ?thesis by auto
qed

section \<open>Events cause a bounded amount of work\<close>

text \<open>The steps a handler can still take, with the expiry of the timer it may set.\<close>

fun steps_left :: "npc \<Rightarrow> nat" where
  "steps_left (N_branch wt) = 6"
| "steps_left (N_branch_known wt b) = 6"
| "steps_left (N_parent ctx) = 5"
| "steps_left (N_parent_known ctx b) = 4"
| "steps_left (N_messages ctx) = 3"
| "steps_left (N_messages_known ctx st) = 2"

interpretation reaction_ledger: ledger steps_left "\<lambda>_. 1" "\<lambda>_. 0" "\<lambda>_. 6" 1
  by unfold_locales simp_all

lemma reaction_credit: "ledger_credit (\<lambda>_. 6) 1 = (\<lambda>a. 7 * of_bool (decoded_wanted a \<noteq> None))"
  by (simp add: fun_eq_iff ledger_credit_def split: option.split)

text \<open>C12: No event sets off endless work.  In every run the replies, continuations of
  handlers and expiries of timers are at most seven for each event that asked for a
  notification, however they interleave, fail or replace each other: every handler ends,
  every timer fires at most once, and nothing is retried or set again.\<close>

theorem reactions_bounded:
  assumes "ntfy_initial w" and "run ntfy_step w acts w'"
  shows "length (filter reaction acts) \<le> 7 * length (filter (\<lambda>a. decoded_wanted a \<noteq> None) acts)"
  using reaction_ledger.account.balance_from_start[OF assms] sum_matching[of reaction acts]
  unfolding reaction_credit sum_credits by simp

theorem reactions_bounded_witness:
  "\<exists>w'. run ntfy_step (sample_running (int_num 3000)) (idle_run ''s'' 0 @ [N_fire 1]) w'
     \<and> length (filter reaction (idle_run ''s'' 0 @ [N_fire 1])) = 7
     \<and> 7 \<le> 7 * length (filter (\<lambda>a. decoded_wanted a \<noteq> None) (idle_run ''s'' 0 @ [N_fire 1]))"
proof -
  let ?acts = "idle_run ''s'' 0 @ [N_fire 1]"
  have "map_option (\<lambda>w. length (sent w)) (ntfy_play (sample_running (int_num 3000)) ?acts) = Some 1" by code_simp
  then obtain w' where w: "ntfy_play (sample_running (int_num 3000)) ?acts = Some w'" by auto
  have "ntfy_initial (sample_running (int_num 3000))" by (auto simp: ntfy_initial_def sample_running_def)
  from reactions_bounded[OF this ntfy_play_run[OF w]]
  have "length (filter reaction ?acts) \<le> 7 * length (filter (\<lambda>a. decoded_wanted a \<noteq> None) ?acts)" .
  moreover have "length (filter reaction ?acts) = 7" by (simp add: idle_run_def)
  ultimately show ?thesis using ntfy_play_run[OF w] by (intro exI[of _ w']) simp
qed

end
