(* ===== verification/Ntfy_Outcome.thy ===== *)
theory Ntfy_Outcome
  imports Ntfy_Spec
begin

text \<open>
  What one event comes to when nothing interferes with its handler: the awaits of the handler
  are answered one after the other, it ends within six steps, and it has scheduled exactly the
  notification that the configuration, the session's parent and its transcript call for.
\<close>

section \<open>An undisturbed handler\<close>

text \<open>What the client and the clock answer during one handler.\<close>

record answers =
  branch_answer :: reply
  parent_answer :: reply
  messages_answer :: reply
  clock :: string

fun next_action :: "answers \<Rightarrow> nat \<Rightarrow> npc \<Rightarrow> ntfy_world \<Rightarrow> naction" where
  "next_action A tid (N_branch wt) w =
     (if branch_pending w then N_branch_reply (branch_answer A) else N_resume tid (clock A))"
| "next_action A tid (N_parent ctx) w = N_parent_reply tid (parent_answer A)"
| "next_action A tid (N_messages ctx) w = N_messages_reply tid (messages_answer A)"
| "next_action A tid c w = N_resume tid (clock A)"

text \<open>Drive a handler to its end, in fewer steps than the fuel.\<close>

fun drive :: "answers \<Rightarrow> nat \<Rightarrow> nat \<Rightarrow> ntfy_world \<Rightarrow> ntfy_world option" where
  "drive A tid 0 w = None"
| "drive A tid (Suc n) w =
     (case n_tasks w tid of
        None \<Rightarrow> Some w
      | Some c \<Rightarrow> Option.bind (ntfy_do w (next_action A tid c w)) (drive A tid n))"

lemma drive_run:
  "drive A tid n w = Some w' \<Longrightarrow> \<exists>acts. length acts < n \<and> run ntfy_step w acts w'"
proof (induction n arbitrary: w)
  case (Suc n)
  show ?case
  proof (cases "n_tasks w tid")
    case None
    with Suc.prems show ?thesis by (auto intro: exI[of _ "[]"] run.run_done)
  next
    case (Some c)
    with Suc.prems obtain v where v: "ntfy_step w (next_action A tid c w) v" "drive A tid n v = Some w'"
      by (auto simp: ntfy_step_def bind_eq_Some_conv)
    then obtain acts where "length acts < n" "run ntfy_step v acts w'" using Suc.IH by blast
    with v(1) show ?thesis by (auto intro: exI[of _ "next_action A tid c w # acts"] run.run_more)
  qed
qed simp

section \<open>What the answers call for\<close>

definition branch_of :: "answers \<Rightarrow> ntfy_world \<Rightarrow> string" where
  "branch_of A w = (case branch_cached w of Some b \<Rightarrow> b | None \<Rightarrow> refreshed_branch (branch_answer A))"

definition is_child :: "answers \<Rightarrow> string \<Rightarrow> ntfy_world \<Rightarrow> bool" where
  "is_child A sid w =
     (case parent_cache w sid of
        Some b \<Rightarrow> b
      | None \<Rightarrow> (case parent_answer A of
            Thrown _ \<Rightarrow> True | Returned d \<Rightarrow> truthy (opt_get d ''parentID'')))"

definition context_of :: "answers \<Rightarrow> wanted \<Rightarrow> ntfy_world \<Rightarrow> notification_context" where
  "context_of A wt w = \<lparr>c_event = wanted_event wt,
     c_metadata = wanted_metadata wt (n_project w) (branch_of A w) (clock A)\<rparr>"

definition announced :: "answers \<Rightarrow> notification_context \<Rightarrow> ntfy_world \<Rightarrow> bool" where
  "announced A ctx w \<longleftrightarrow>
     enabled (n_config w) \<and> ev_enabled (events (n_config w) (c_event ctx))
     \<and> sessionId (c_metadata ctx) \<noteq> [] \<and> \<not> is_child A (sessionId (c_metadata ctx)) w
     \<and> (c_event ctx = Session_idle \<longrightarrow> ptyNotifyState (messages_answer A) = Pty_clear)"

text \<open>A notification scheduled with its configured wait, or not.\<close>

definition verdict :: "notification_context \<Rightarrow> bool \<Rightarrow> ntfy_world \<Rightarrow> ntfy_world" where
  "verdict ctx ok w =
     (if ok then scheduleNotification ctx (notifyAfterMs (events (n_config w) (c_event ctx))) w else w)"

text \<open>What the outside sees: the disposal, the notifications sent and the timers that wait.\<close>

definition outside :: "ntfy_world \<Rightarrow>
    bool \<times> notification_context list \<times> (string \<times> nat) list \<times> (nat \<rightharpoonup> notification_context)" where
  "outside w = (disposed w, sent w, timers w, callbacks w)"

section \<open>The stages of a handler\<close>

lemma schedule_tasks [simp]: "n_tasks (scheduleNotification ctx ms w) = n_tasks w"
  by (simp add: scheduleNotification_def Let_def sendNotification_def clear_timeout_def split: option.split)

text \<open>Worlds that agree on what scheduling reads and writes.\<close>

definition peer :: "ntfy_world \<Rightarrow> ntfy_world \<Rightarrow> bool" where
  "peer v w \<longleftrightarrow> outside v = outside w \<and> n_next v = n_next w \<and> n_config v = n_config w"

lemma peer_update [simp]:
  "peer (w\<lparr>n_tasks := a\<rparr>) w" "peer (set_npc tid c w) w" "peer (end_task tid w) w" "peer w w"
  "peer (w\<lparr>n_tasks := a, parent_cache := b, root_sessions := d\<rparr>) w"
  "peer (w\<lparr>n_tasks := a, quiet_sessions := e\<rparr>) w"
  "peer (branch_refreshed r w) w"
  by (simp_all add: peer_def outside_def set_npc_def end_task_def branch_refreshed_def)

lemma verdict_peer:
  assumes "peer v w"
  shows "outside (verdict ctx ok v) = outside (verdict ctx ok w)"
  using assms
  by (simp add: peer_def outside_def verdict_def scheduleNotification_def Let_def sendNotification_def
      clear_timeout_def timer_of_def split: option.split del: timer_of_fold)

text \<open>The end of a handler that has scheduled its notification or not.\<close>

definition outcome :: "answers \<Rightarrow> nat \<Rightarrow> nat \<Rightarrow> ntfy_world \<Rightarrow> ntfy_world \<Rightarrow> bool" where
  "outcome A tid n w v \<longleftrightarrow>
     (\<exists>w'. drive A tid n w = Some w' \<and> n_tasks w' tid = None \<and> outside w' = outside v)"

lemma outcome_ended: "outcome A tid (Suc n) (end_task tid w) (verdict ctx False w)"
  by (simp add: outcome_def end_task_def verdict_def outside_def)

lemma outcome_schedule:
  assumes "\<not> disposed w"
  shows "outcome A tid (Suc n) (dispatch_schedule tid ctx w) (verdict ctx True w)"
  using assms verdict_peer[of "end_task tid w" w ctx True]
  by (simp add: outcome_def dispatch_schedule_def end_task_def verdict_def)

lemma outcome_next:
  assumes "n_tasks w tid = Some c" "ntfy_do w (next_action A tid c w) = Some u" "peer u w"
    and "outcome A tid n u (verdict ctx ok u)"
  shows "outcome A tid (Suc n) w (verdict ctx ok w)"
  using assms verdict_peer[OF assms(3)] by (simp add: outcome_def)

lemma outcome_now:
  assumes "n_tasks w tid = Some c" "ntfy_do w (next_action A tid c w) = Some u"
    and "outcome A tid n u (verdict ctx ok w)"
  shows "outcome A tid (Suc n) w (verdict ctx ok w)"
  using assms by (simp add: outcome_def)

lemma messages_known_outcome:
  assumes "n_tasks w tid = Some (N_messages_known ctx st)" "\<not> disposed w"
  shows "outcome A tid (Suc (Suc n)) w (verdict ctx (st = Pty_clear) w)"
  using outcome_now[OF assms(1), of A "dispatch_messages_known tid ctx st w" "Suc n"] assms
    outcome_ended[of A tid n w ctx] outcome_schedule[OF assms(2), of A tid n ctx]
  by (cases st) (simp_all add: resume_def dispatch_messages_known_def)

lemma messages_outcome:
  assumes "n_tasks w tid = Some (N_messages ctx)" "\<not> disposed w"
  shows "outcome A tid (Suc (Suc (Suc n))) w
    (verdict ctx (ptyNotifyState (messages_answer A) = Pty_clear) w)"
proof (rule outcome_next[OF assms(1)])
  let ?u = "messages_answered tid ctx (messages_answer A) w"
  show "ntfy_do w (next_action A tid (N_messages ctx) w) = Some ?u" using assms by simp
  show "peer ?u w" by (simp add: peer_def outside_def messages_answered_def set_npc_def)
  show "outcome A tid (Suc (Suc n)) ?u (verdict ctx (ptyNotifyState (messages_answer A) = Pty_clear) ?u)"
    by (rule messages_known_outcome) (use assms in \<open>simp_all add: messages_answered_def set_npc_def\<close>)
qed

lemma parent_known_outcome:
  assumes "n_tasks w tid = Some (N_parent_known ctx child)" "\<not> disposed w"
  shows "outcome A tid (Suc (Suc (Suc (Suc n)))) w (verdict ctx (\<not> child
    \<and> (c_event ctx = Session_idle \<longrightarrow> ptyNotifyState (messages_answer A) = Pty_clear)) w)"
proof (cases "\<not> child \<and> c_event ctx = Session_idle")
  case True
  have "outcome A tid (Suc (Suc (Suc n))) (set_npc tid (N_messages ctx) w)
      (verdict ctx (ptyNotifyState (messages_answer A) = Pty_clear) (set_npc tid (N_messages ctx) w))"
    by (rule messages_outcome) (use assms in \<open>simp_all add: set_npc_def\<close>)
  with True outcome_next[OF assms(1) _ _ this] assms show ?thesis
    by (simp add: resume_def dispatch_parent_known_def)
next
  case False
  with outcome_now[OF assms(1), of A "dispatch_parent_known tid ctx child w" "Suc (Suc (Suc n))"] assms
    outcome_ended[of A tid "Suc (Suc n)" w ctx] outcome_schedule[OF assms(2), of A tid "Suc (Suc n)" ctx]
  show ?thesis by (auto simp: resume_def dispatch_parent_known_def)
qed

lemma parent_outcome:
  assumes "n_tasks w tid = Some (N_parent ctx)" "\<not> disposed w"
    and "parent_cache w (sessionId (c_metadata ctx)) = None"
  shows "outcome A tid (Suc (Suc (Suc (Suc (Suc n))))) w
    (verdict ctx (\<not> is_child A (sessionId (c_metadata ctx)) w
      \<and> (c_event ctx = Session_idle \<longrightarrow> ptyNotifyState (messages_answer A) = Pty_clear)) w)"
proof (rule outcome_next[OF assms(1)])
  let ?u = "parent_answered tid ctx (parent_answer A) w"
    and ?child = "is_child A (sessionId (c_metadata ctx)) w"
  show "ntfy_do w (next_action A tid (N_parent ctx) w) = Some ?u" using assms by simp
  show "peer ?u w"
    by (simp add: peer_def outside_def parent_answered_def set_npc_def Let_def split: reply.split)
  show "outcome A tid (Suc (Suc (Suc (Suc n)))) ?u (verdict ctx (\<not> ?child
      \<and> (c_event ctx = Session_idle \<longrightarrow> ptyNotifyState (messages_answer A) = Pty_clear)) ?u)"
    by (rule parent_known_outcome)
      (use assms in \<open>simp_all add: parent_answered_def is_child_def set_npc_def Let_def split: reply.split\<close>)
qed

lemma begin_outcome:
  assumes "\<not> disposed w"
    and ctx: "ctx = \<lparr>c_event = wanted_event wt, c_metadata = wanted_metadata wt (n_project w) b (clock A)\<rparr>"
  shows "outcome A tid (Suc (Suc (Suc (Suc (Suc n))))) (dispatch_begin tid wt b (clock A) w)
    (verdict ctx (announced A ctx w) w)"
proof (cases "enabled (n_config w) \<and> ev_enabled (events (n_config w) (c_event ctx))
    \<and> sessionId (c_metadata ctx) \<noteq> []")
  case False
  then have "dispatch_begin tid wt b (clock A) w = end_task tid w" "\<not> announced A ctx w"
    unfolding ctx by (auto simp: dispatch_begin_def announced_def Let_def)
  then show ?thesis using outcome_ended by simp
next
  case True
  let ?sid = "sessionId (c_metadata ctx)"
  let ?ok = "\<not> is_child A ?sid w
    \<and> (c_event ctx = Session_idle \<longrightarrow> ptyNotifyState (messages_answer A) = Pty_clear)"
  obtain c where c: "dispatch_begin tid wt b (clock A) w = set_npc tid c w"
    "c = (case parent_cache w ?sid of Some b \<Rightarrow> N_parent_known ctx b | None \<Rightarrow> N_parent ctx)"
    using True assms(1) unfolding ctx by (auto simp: dispatch_begin_def Let_def split: option.splits)
  let ?u = "set_npc tid c w"
  have u: "\<not> disposed ?u" "n_tasks ?u tid = Some c" "parent_cache ?u = parent_cache w"
    "is_child A ?sid ?u = is_child A ?sid w"
    using assms(1) by (simp_all add: set_npc_def is_child_def)
  have "outcome A tid (Suc (Suc (Suc (Suc (Suc n))))) ?u (verdict ctx ?ok ?u)"
  proof (cases "parent_cache w ?sid")
    case None
    with parent_outcome[of ?u tid ctx A n] u c(2) show ?thesis by simp
  next
    case (Some child)
    with parent_known_outcome[of ?u tid ctx child A "Suc n"] u c(2) show ?thesis by (simp add: is_child_def)
  qed
  moreover have "announced A ctx w \<longleftrightarrow> ?ok" using True by (simp add: announced_def)
  ultimately show ?thesis using verdict_peer[of ?u w ctx ?ok] c(1) by (simp add: outcome_def)
qed

lemma event_drive:
  assumes "\<not> disposed w" "decodeEvent type props = Some d" "wanted_of d = Some wt"
  shows "outcome A (n_next w) (Suc (Suc (Suc (Suc (Suc (Suc (Suc n))))))) (ntfy_event type props w)
    (verdict (context_of A wt w) (announced A (context_of A wt w) w) (w\<lparr>n_next := Suc (n_next w)\<rparr>))"
proof -
  let ?tid = "n_next w" and ?ctx = "context_of A wt w" and ?v = "w\<lparr>n_next := Suc (n_next w)\<rparr>"
  let ?ok = "announced A ?ctx w"
  have ev: "ntfy_event type props w = current_branch wt w"
    using assms by (cases d) (simp_all add: ntfy_event_def)
  have begun: "outcome A ?tid (Suc (Suc (Suc (Suc (Suc m))))) (dispatch_begin ?tid wt (branch_of A w) (clock A) u)
      (verdict ?ctx ?ok u)" if "\<not> disposed u" "n_project u = n_project w" "n_config u = n_config w"
    "parent_cache u = parent_cache w" for u m
    using begin_outcome[OF that(1), of ?ctx wt "branch_of A w" A ?tid m] that
    by (simp add: context_of_def announced_def is_child_def)
  show ?thesis
  proof (cases "branch_cached w")
    case (Some b)
    let ?u = "set_npc ?tid (N_branch_known wt b) ?v"
    have "outcome A ?tid (Suc (Suc (Suc (Suc (Suc (Suc (Suc n))))))) ?u (verdict ?ctx ?ok ?u)"
      by (rule outcome_now[where c = "N_branch_known wt b"
            and u = "dispatch_begin ?tid wt b (clock A) ?u"])
        (use Some assms(1) begun[of ?u "Suc n"] in \<open>simp_all add: set_npc_def resume_def branch_of_def\<close>)
    with ev Some verdict_peer[of ?u ?v ?ctx ?ok] show ?thesis
      by (simp add: current_branch_def Let_def outcome_def)
  next
    case None
    let ?u = "set_npc ?tid (N_branch wt) (?v\<lparr>branch_pending := True\<rparr>)"
    let ?x = "branch_refreshed (branch_answer A) ?u"
    have "outcome A ?tid (Suc (Suc (Suc (Suc (Suc (Suc n)))))) ?x (verdict ?ctx ?ok ?x)"
      by (rule outcome_now[where c = "N_branch wt"
            and u = "dispatch_begin ?tid wt (branch_of A w) (clock A) ?x"])
        (use None assms(1) begun[of ?x n] in
          \<open>simp_all add: set_npc_def branch_refreshed_def resume_def branch_of_def\<close>)
    then have "outcome A ?tid (Suc (Suc (Suc (Suc (Suc (Suc (Suc n))))))) ?u (verdict ?ctx ?ok ?u)"
      by (rule outcome_next[where c = "N_branch wt", rotated 3]) (simp_all add: set_npc_def)
    moreover have "peer ?u ?v" by (simp add: peer_def outside_def set_npc_def)
    ultimately show ?thesis using ev None verdict_peer[of ?u ?v ?ctx ?ok]
      by (simp add: current_branch_def Let_def outcome_def)
  qed
qed

section \<open>The outcome of an event\<close>

text \<open>C11: A handler is the sequential program it is written as.  When nothing interferes
  with the handler of an event and each of its awaits is answered, it ends within six steps,
  and sent notifications and timers are exactly those that scheduling the one notification
  leaves, with the branch, parent and transcript answered (or cached), if the plugin and the
  event are enabled, the session is a root session and, for an idle one, no terminal is
  pending; otherwise they are as before.\<close>

theorem event_outcome:
  assumes "\<not> disposed w" and "decodeEvent type props = Some d" and "wanted_of d = Some wt"
  shows "\<exists>w'. drive A (n_next w) 7 (ntfy_event type props w) = Some w'
    \<and> n_tasks w' (n_next w) = None
    \<and> outside w' = outside (if announced A (context_of A wt w) w
        then scheduleNotification (context_of A wt w) (notifyAfterMs (events (n_config w) (wanted_event wt)))
          (w\<lparr>n_next := Suc (n_next w)\<rparr>)
        else w)"
proof -
  have seven: "(7::nat) = Suc (Suc (Suc (Suc (Suc (Suc (Suc 0))))))" by simp
  have e: "c_event (context_of A wt w) = wanted_event wt" by (simp add: context_of_def)
  from event_drive[OF assms, of A 0] show ?thesis
    unfolding seven outcome_def
    by (cases "announced A (context_of A wt w) w") (simp_all add: verdict_def e outside_def del: drive.simps)
qed

definition sample_answers :: answers where
  "sample_answers = \<lparr>branch_answer = Returned (JObj [(''branch'', JStr ''main'')]),
     parent_answer = Returned (JObj []), messages_answer = Returned (JArr []), clock = ''t''\<rparr>"

lemma decode_idle: "sid \<noteq> [] \<Longrightarrow> decodeEvent ''session.status'' (idle_props sid) = Some (D_idle sid)"
  by (simp add: decodeEvent_def idle_props_def)

lemma sample_context_of: "context_of sample_answers (W_idle ''s'') (sample_running ms)
    = \<lparr>c_event = Session_idle, c_metadata = extractIdle ''s'' ''proj'' ''main'' ''t''\<rparr>"
  by (simp add: context_of_def sample_answers_def branch_of_def sample_running_def ntfy_init_def
      refreshed_branch_def normalizeBranch_def)

lemma sample_announced: "announced sample_answers (context_of sample_answers (W_idle ''s'') (sample_running ms))
    (sample_running ms)"
  unfolding sample_context_of
  by (simp add: announced_def sample_answers_def sample_running_def ntfy_init_def is_child_def
      ptyNotifyState_def unfinishedNotifyOnExitPtys_def extractIdle_def js_simps)

theorem event_outcome_witness:
  "\<exists>w'. drive sample_answers 0 7 (ntfy_event ''session.status'' (idle_props ''s'')
         (sample_running (int_num 0))) = Some w'
     \<and> sent w' = [\<lparr>c_event = Session_idle, c_metadata = extractIdle ''s'' ''proj'' ''main'' ''t''\<rparr>]"
proof -
  let ?w = "sample_running (int_num 0)"
  have "\<not> disposed ?w" "n_next ?w = 0" "sent ?w = []" "timers ?w = []"
    "notifyAfterMs (events (n_config ?w) Session_idle) = int_num 0"
    by (simp_all add: sample_running_def ntfy_init_def)
  moreover from this have "sent (scheduleNotification c (int_num 0) (?w\<lparr>n_next := Suc 0\<rparr>)) = [c]" for c
    by (simp add: scheduleNotification_def Let_def sendNotification_def int_num_def)
  moreover note event_outcome[OF calculation(1) decode_idle, of "''s''" "W_idle ''s''" sample_answers]
  ultimately show ?thesis
    by (simp add: sample_announced[of "int_num 0"] outside_def del: drive.simps)
      (auto simp: sample_context_of simp del: drive.simps)
qed

text \<open>An announced event is delivered.  From every world that is not disposed of, an
  event that passes the gates leads to its notification: the client's answers, the handler's
  continuations and, with a wait, the expiry of the timer follow in at most seven steps, and
  what is then sent is exactly the notification of this event, after all earlier ones.\<close>

theorem notification_delivered:
  assumes "\<not> disposed w" and "decodeEvent type props = Some d" and "wanted_of d = Some wt"
    and "announced A (context_of A wt w) w"
  shows "\<exists>acts w'. length acts \<le> 7 \<and> run ntfy_step w (N_event type props # acts) w'
    \<and> sent w' = sent w @ [context_of A wt w]"
proof -
  let ?ctx = "context_of A wt w" and ?v = "w\<lparr>n_next := Suc (n_next w)\<rparr>"
  from event_drive[OF assms(1-3), of A 0] obtain u where
    u: "drive A (n_next w) (Suc (Suc (Suc (Suc (Suc (Suc (Suc 0))))))) (ntfy_event type props w) = Some u"
      "outside u = outside (verdict ?ctx True ?v)"
    using assms(4) by (auto simp: outcome_def simp del: drive.simps)
  obtain acts where acts: "length acts < 7" "run ntfy_step (ntfy_event type props w) acts u"
    using drive_run[OF u(1)] by (auto simp: numeral_eq_Suc)
  show ?thesis
  proof (cases "not_positive (notifyAfterMs (events (n_config w) (c_event ?ctx)))")
    case True
    with u(2) assms(1) have "sent u = sent w @ [?ctx]"
      by (simp add: outside_def verdict_def scheduleNotification_def Let_def sendNotification_def)
    with acts show ?thesis
      by (intro exI[of _ acts] exI[of _ u]) (auto simp: ntfy_step_def intro: run.run_more)
  next
    case False
    let ?i = "Suc (n_next w)"
    from False u(2) assms(1) have fired: "callbacks u ?i = Some ?ctx" "sent u = sent w" "\<not> disposed u"
      by (simp_all add: outside_def verdict_def scheduleNotification_def Let_def)
    then have "ntfy_step u (N_fire ?i) (fire ?i ?ctx u)" "sent (fire ?i ?ctx u) = sent w @ [?ctx]"
      by (simp_all add: ntfy_step_def fire_def Let_def sendNotification_def)
    with run_snoc[OF acts(2)] acts(1) show ?thesis
      by (intro exI[of _ "acts @ [N_fire ?i]"] exI[of _ "fire ?i ?ctx u"])
        (auto simp: ntfy_step_def intro: run.run_more)
  qed
qed

theorem notification_delivered_witness:
  "\<exists>acts w'. run ntfy_step (sample_running (int_num 3000))
       (N_event ''session.status'' (idle_props ''s'') # acts) w' \<and> length acts \<le> 7
     \<and> sent w' = [\<lparr>c_event = Session_idle, c_metadata = extractIdle ''s'' ''proj'' ''main'' ''t''\<rparr>]"
proof -
  let ?w = "sample_running (int_num 3000)"
  have "\<not> disposed ?w" "sent ?w = []" by (simp_all add: sample_running_def ntfy_init_def)
  with notification_delivered[OF this(1) decode_idle, of "''s''" "W_idle ''s''" sample_answers]
  show ?thesis using sample_announced by (auto simp: sample_context_of)
qed

end
