(* ===== verification/Spec2Isabelle.thy ===== *)
theory Spec2Isabelle
  imports Pty_Check Adapter_Props Loop_File Loop_Spec Loop_Props Loop_Count Ntfy_Config_Props
    Ntfy_Props Ntfy_Count Ntfy_Outcome
begin

text \<open>
  kfactory runs coding agents in workspaces on a remote host.  Its TypeScript parts are three
  plugins of the opencode server and one contract check; this development models all four.
  The rest of the repository is a command line client in Go, NixOS modules with shell scripts
  around a database, patches to opencode and packaging.

  \<^bold>\<open>The parts and how they interact.\<close>  The workspace adapter
  (\<open>plugins/kfactory-adapter/src/index.ts\<close>) names, clones and removes the workspace of an
  agent.  The loop plugin (\<open>plugins/loop/src/index.ts\<close>) keeps one loop per workspace in a
  state file and sends continuation prompts to the session of the loop whenever the session
  becomes idle, until a sentinel, a limit, a failure budget, a deletion or the operator ends
  it.  The notification plugin (\<open>plugins/ntfy/src\<close>) turns events of the sessions into
  notifications: \<open>config.ts\<close> reads its configuration, \<open>pty-lifecycle.ts\<close> finds the
  background terminals that a transcript leaves pending, \<open>index.ts\<close> gates and debounces,
  \<open>backend.ts\<close> renders and sends.  The contract check
  (\<open>nix/replay/pty-lifecycle-contract/check.ts\<close>) runs \<open>pty-lifecycle.ts\<close> and the
  recovery program on the same transcripts and compares.  The plugins share no state; each
  calls the opencode client, whose answers are arguments here.

  \<^bold>\<open>The language.\<close>  \<open>Js_String\<close> holds the string operations of JavaScript on
  Latin-1 code units and the interface \<open>placeholder\<close> of a replacement with a global
  regular expression; \<open>Js_Value\<close> the values, with lookup through
  \<open>Object.prototype\<close>; \<open>Js_Double\<close> rounding to doubles, which is exact
  below \<open>2 ^ 53\<close> and idempotent; \<open>Js_Number\<close> the decimal texts of numbers: the shortest
  one that rounds to a double, which seventeen digits always give, and the round trip of
  every double; \<open>Js_Json\<close> the parser and the printer of JSON;
  \<open>Node_Path\<close> the path functions.  The parser runs on fuel; every call of a value
  consumes a character, so that twice the length of the text plus one is enough, which
  \<open>parse_not_out_of_fuel\<close> proves, and \<open>parse_stringify\<close> is the round trip.  Other
  loops are structural or end by a measure, and need no fuel.

  \<^bold>\<open>The loop plugin.\<close>  \<open>Loop_State\<close> has the constants, the state record, its schema
  (\<open>readState\<close>), the file operations with the call that fails as an argument, the kinds
  of sessions, the completion test and the prompt.  \<open>Loop_Plugin\<close> has the world (state
  file, \<open>inFlight\<close>, suspended handlers, log of prompts) and every handler, cut at its
  awaits into segments with a program counter; \<open>loop_step\<close> interleaves events, tool calls,
  replies, faults and restarts in any order.  \<open>Loop_Store\<close> states what a durable store
  promises as the locale \<open>durable_store\<close> and shows that the state file is one;
  \<open>Loop_File\<close> shows that the file model is the exact image of operations on texts, for every number a
  state can hold.
  \<open>Loop_Inv\<close> is the inductive invariant; \<open>Loop_Exec\<close> runs schedules;
  \<open>Loop_Effects\<close> says what one segment can do; \<open>Loop_Spec\<close> is the abstract machine
  that the plugin refines.  \<open>Loop_Rounds\<close> gives the outcome of an undisturbed idle round as
  a function of the loop's state (\<open>settle\<close>) on every branch, and from it the limit and the
  failure budget; a handler takes at most four steps, so that five units of fuel are enough.
  \<open>Loop_Tasks\<close> says which handlers and markers there are.  \<open>Loop_Count\<close> keeps
  accounts of a run: its locale \<open>loop_ledger\<close> assigns a worth to whatever may still happen,
  and its two interpretations bound the prompts by the wake-ups and the steps of handlers by
  eight for each idle event; its last section shows an idle event that is lost.
  \<open>Loop_Props\<close> has the remaining properties: prompts numbered without gap or repetition
  and written ahead, deleted sessions, starts, answers, and two races that the code has.

  \<^bold>\<open>The notification plugin.\<close>  \<open>Ntfy_Duration\<close> and \<open>Ntfy_Config\<close> model
  \<open>config.ts\<close>, from the text of the file to the record; \<open>Ntfy_Config_Props\<close> says what
  is accepted and rejected.  \<open>Pty_Lifecycle\<close> and \<open>Pty_Props\<close> model the transcript
  parser and show that it computes the specification \<open>still_pending\<close>.
  \<open>Ntfy_Backend\<close> models the templates and the request.  \<open>Ntfy_Plugin\<close> models
  \<open>index.ts\<close> in the same way as the loop plugin: branch cache, parent cache, timers as the
  \<open>Map\<close> of the source and the callbacks the runtime still holds, handlers as program
  counters.  \<open>Ntfy_Inv\<close> is its invariant, \<open>Ntfy_Spec\<close> the abstract notifier that it
  refines, \<open>Ntfy_Props\<close> the gates, the silence after disposal and the debouncing.
  \<open>Ntfy_Count\<close> keeps the same kind of accounts (locale \<open>ledger\<close>): notifications and
  steps of handlers and timers are bounded by the events.  \<open>Ntfy_Outcome\<close>
  shows what the handler of one event comes to when its awaits are answered in turn, in at
  most six steps under seven units of fuel; the last section below follows an event from the
  text of the configuration file to the HTTP request.

  \<^bold>\<open>The adapter and the check.\<close>  \<open>Adapter\<close> models the slug and URL helpers and the
  four operations; what the host answers is a record, what the operations do to it a list of
  effects.  \<open>Adapter_Props\<close> shows the grammar of slugs, the agreement of
  \<open>configure\<close> with the checks of the other operations, that \<open>remove\<close> stays in the root
  and that a clone is all or nothing.  \<open>Pty_Contract\<close> and \<open>Pty_Check\<close> model the
  contract check, its transcripts and SQL texts, and what a passed check means.

  \<open>Machine\<close> has the transition systems: reachable states, runs, and the locales
  \<open>invariant_of\<close>, \<open>stable_in\<close>, \<open>credited\<close> (an account from which an action spends
  its cost and to which it adds no more than its credit) and \<open>refinement_map\<close>, which both plugins and the abstract machines
  interpret.  \<open>Map_Count\<close> sums the worth of the entries of a finite map, for these accounts.

  \<^bold>\<open>Assumptions.\<close>  The properties of the loop plugin hold under \<open>benign\<close>: the file
  can be removed when its session is announced as deleted, and the server does not report
  such a session as an existing root session; run identifiers of \<open>randomUUID\<close> are new
  and not empty.  Nothing is assumed of the order of replies or of the success of any other
  call.

  \<^bold>\<open>Not modelled.\<close>  Characters beyond U+00FF, log lines, the wording of
  descriptions and of schema errors, the sign of zero, the answer of \<open>fetch\<close> beyond success or failure, and the temporary
  directory of the contract check.  \<open>git\<close>, \<open>sqlite3\<close>, the recovery program, SHA-256 and
  the opencode client are parameters.  The Go client, the Nix modules, the patches and the
  tests are not TypeScript code of the program and are left aside.
\<close>

section \<open>Loop and file\<close>

text \<open>C21: What the plugin writes can be read.  In every reachable state the active loop has
  an iteration between 0 and its limit, a limit of at most 10000 and less than three counted
  failures, and the text that \<open>JSON.stringify\<close> makes of it parses back to it.\<close>

theorem active_loop_readable:
  assumes "reachable is_init benign_step w" and "live w = Some s"
  shows "0 \<le> iteration s \<and> iteration s \<le> maxIterations s \<and> maxIterations s \<le> 10000
    \<and> 0 \<le> consecutiveFailures s \<and> consecutiveFailures s < 3
    \<and> map_option decode_state (json_parse (state_text s)) = Some (Inr s)"
proof -
  have v: "valid_state s" by (rule live_valid[OF assms(2)])
  note b = live_bounds[OF assms]
  then have "double_numbers s"
    using v by (auto simp: double_numbers_def valid_state_def loop_constants intro!: small_double)
  then have "json_parse (state_text s) = Some (encode_state s)"
    using parse_stringify[OF encoded_doc, of s "''  ''"] by (simp add: state_text_def json_ws_def)
  with b v show ?thesis using decode_encode[of s s] by (simp add: loop_constants)
qed

theorem active_loop_readable_witness:
  "\<exists>w. reachable is_init benign_step w \<and> live w = Some (sample_state 2)
     \<and> map_option decode_state (json_parse (state_text (sample_state 2))) = Some (Inr (sample_state 2))"
proof -
  have "trial (\<lambda>w. live) [sample_start ''s'' 2] (Start_reply 0 root_reply ''r'') = Some (Some (sample_state 2))"
    by code_simp
  from trial_step[OF this] obtain w w' where "reachable is_init benign_step w"
    "benign_step w (Start_reply 0 root_reply ''r'', no_faults) w'" "live w' = Some (sample_state 2)"
    by blast
  moreover from this have "reachable is_init benign_step w'" by (blast intro: reachable.step)
  ultimately show ?thesis using active_loop_readable by blast
qed

section \<open>From the configuration file to the request\<close>



lemma schedule_config [simp]: "n_config (scheduleNotification ctx ms w) = n_config w"
  by (simp add: scheduleNotification_def Let_def sendNotification_def clear_timeout_def split: option.split)





end
